theory Spec2Isabelle
  imports Main "HOL-Library.Sublist" "HOL-Library.Multiset"
begin

section \<open>Strings as Python sees them\<close>

text \<open>
  A Python \<open>str\<close> is modelled as a \<open>string\<close>, one \<open>char\<close> per code point, so the model
  covers text whose code points lie below 256. On that range \<open>str.lower\<close> maps
  \<open>A..Z\<close> and the Latin-1 capitals (192..222 without 215) to the code point 32 above,
  \<open>\d\<close> matches \<open>0..9\<close> only, and \<open>str.isspace\<close> holds for 9..13, 28..32, 133 and 160.
\<close>

definition lower_char :: "char \<Rightarrow> char" where
  "lower_char c =
     (let n = (of_char c :: nat)
      in if (65 \<le> n \<and> n \<le> 90) \<or> (192 \<le> n \<and> n \<le> 222 \<and> n \<noteq> 215)
         then char_of (n + 32) else c)"

definition lower :: "string \<Rightarrow> string" where
  "lower s = map lower_char s"

definition is_digit :: "char \<Rightarrow> bool" where
  "is_digit c = (c \<in> set ''0123456789'')"

definition digit_val :: "char \<Rightarrow> nat" where
  "digit_val c = of_char c - 48"

definition int_of_digits :: "string \<Rightarrow> int" where
  "int_of_digits s = foldl (\<lambda>n c. 10 * n + int (digit_val c)) 0 s"

definition is_space :: "char \<Rightarrow> bool" where
  "is_space c =
     (let n = (of_char c :: nat)
      in (9 \<le> n \<and> n \<le> 13) \<or> (28 \<le> n \<and> n \<le> 32) \<or> n = 133 \<or> n = 160)"

definition strip :: "string \<Rightarrow> string" where
  "strip s = rev (dropWhile is_space (rev (dropWhile is_space s)))"

text \<open>Python's \<open>w in text\<close> on strings: \<open>w\<close> occurs in \<open>text\<close> as a contiguous piece.\<close>

fun str_in :: "string \<Rightarrow> string \<Rightarrow> bool" where
  "str_in w [] = (w = [])"
| "str_in w (c # cs) = (prefix w (c # cs) \<or> str_in w cs)"

text \<open>\<open>any(word in text for word in words)\<close>\<close>

definition any_in :: "string list \<Rightarrow> string \<Rightarrow> bool" where
  "any_in words text = list_ex (\<lambda>word. str_in word text) words"

section \<open>Data model\<close>

text \<open>\<open>datetime.datetime\<close>, naive (no time zone).\<close>

record datetime =
  dt_year :: int
  dt_month :: int
  dt_day :: int
  dt_hour :: int
  dt_minute :: int
  dt_second :: int
  dt_microsecond :: int

text \<open>
  The dictionary \<open>pub_data\<close> that the three parsers of the fetcher build and that
  \<open>create_publication\<close> reads. Each field is what \<open>pub_data.get(key, default)\<close> yields
  with the default the source uses for that key (\<open>''\<close> for title and abstract,
  \<open>'unknown'\<close> for the publication type, \<open>[]\<close> for authors and keywords, \<open>None\<close>
  otherwise); \<open>None\<close> in an optional field is Python's \<open>None\<close>, which a JSON null under
  the key gives as well.
\<close>

record pub_data =
  pd_nasa_id :: "string option"
  pd_title :: "string option"
  pd_abstract :: "string option"
  pd_authors :: "string list"
  pd_publication_date :: "datetime option"
  pd_publication_year :: "int option"
  pd_url :: "string option"
  pd_publication_type :: "string option"
  pd_keywords :: "string list"
  pd_doi :: "string option"
  pd_journal_name :: "string option"
  pd_organism_type :: "string option"
  pd_research_domain :: "string option"

section \<open>Year extraction (fetcher, \<open>_extract_year\<close>)\<close>

text \<open>
  \<open>re.search(r'(\d{4})', s)\<close>: the leftmost position at which four digits stand in a
  row; group 1 is those four characters.
\<close>

fun search_4digits :: "string \<Rightarrow> string option" where
  "search_4digits (a # b # c # d # rest) =
     (if is_digit a \<and> is_digit b \<and> is_digit c \<and> is_digit d then Some [a, b, c, d]
      else search_4digits (b # c # d # rest))"
| "search_4digits _ = None"

definition extract_year :: "string option \<Rightarrow> int option" where
  "extract_year date_str =
     (case date_str of
        None \<Rightarrow> None
      | Some s \<Rightarrow>
          if s = [] then None
          else (case search_4digits s of
                  None \<Rightarrow> None
                | Some g \<Rightarrow>
                    (let year = int_of_digits g
                     in if 1900 \<le> year \<and> year \<le> 2030 then Some year else None)))"

text \<open>Four digits stand in a row at position \<open>i\<close> of \<open>s\<close>.\<close>

definition digit_run_at :: "string \<Rightarrow> nat \<Rightarrow> bool" where
  "digit_run_at s i = (i + 4 \<le> length s \<and> list_all is_digit (take 4 (drop i s)))"

section \<open>Tokenizer (main, \<open>_tokens\<close>)\<close>

definition STOPWORDS :: "string list" where
  "STOPWORDS =
    [''the'', ''and'', ''a'', ''an'', ''in'', ''on'', ''for'', ''of'', ''to'', ''is'', ''are'',
     ''was'', ''were'', ''be'', ''been'', ''being'',
     ''with'', ''by'', ''as'', ''at'', ''that'', ''this'', ''these'', ''those'', ''it'', ''its'',
     ''from'', ''or'', ''we'', ''our'', ''you'',
     ''your'', ''their'', ''they'', ''he'', ''she'', ''his'', ''her'', ''i'', ''me'', ''my'',
     ''mine'', ''but'', ''not'', ''no'', ''yes'', ''can'',
     ''will'', ''would'', ''could'', ''should'', ''may'', ''might'', ''into'', ''about'', ''over'',
     ''under'', ''between'', ''among'', ''than'',
     ''such'', ''more'', ''most'', ''least'', ''also'', ''using'', ''use'', ''used'', ''via'',
     ''per'', ''each'', ''both'', ''if'', ''then'', ''else'']"

text \<open>The character class \<open>[a-z0-9]\<close> and its complement, the separators of \<open>_TOKEN_SPLIT\<close>.\<close>

definition is_token_char :: "char \<Rightarrow> bool" where
  "is_token_char c = (c \<in> set ''abcdefghijklmnopqrstuvwxyz0123456789'')"

text \<open>
  \<open>_TOKEN_SPLIT.split(s)\<close> for the pattern \<open>[^a-z0-9]+\<close>: the text is cut at every maximal
  run of separators; a run at the start or the end of the text leaves an empty piece
  there, as \<open>re.split\<close> does. \<open>in_run\<close> says that the previous character was a
  separator, \<open>acc\<close> is the piece being read, reversed.
\<close>

fun token_split :: "bool \<Rightarrow> string \<Rightarrow> string \<Rightarrow> string list" where
  "token_split in_run acc [] = [rev acc]"
| "token_split in_run acc (c # cs) =
     (if is_token_char c then token_split False (c # acc) cs
      else if in_run then token_split True acc cs
      else rev acc # token_split True [] cs)"

definition tokens :: "string \<Rightarrow> string list" where
  "tokens text =
     (let toks = filter (\<lambda>t. t \<noteq> []) (token_split False [] (lower text))
      in filter (\<lambda>t. t \<notin> set STOPWORDS \<and> length t > 1) toks)"



section \<open>Record classifier (fetcher)\<close>

text \<open>What an f-string prints for a field that holds a string or \<open>None\<close>.\<close>

definition fmt :: "string option \<Rightarrow> string" where
  "fmt v = (case v of None \<Rightarrow> ''None'' | Some s \<Rightarrow> s)"

definition classify_text :: "'a pub_data_scheme \<Rightarrow> string" where
  "classify_text pub = lower (fmt (pd_title pub) @ '' '' @ fmt (pd_abstract pub))"

definition classify_organism_type :: "'a pub_data_scheme \<Rightarrow> string" where
  "classify_organism_type pub =
     (let text = classify_text pub
      in if any_in [''human'', ''astronaut'', ''crew'', ''personnel'', ''person''] text
           then ''Human''
         else if any_in [''plant'', ''arabidopsis'', ''crop'', ''vegetation'', ''botanical''] text
           then ''Plant''
         else if any_in [''microbe'', ''bacteria'', ''virus'', ''microbial'', ''pathogen''] text
           then ''Microbe''
         else if any_in [''animal'', ''mouse'', ''rat'', ''rodent'', ''mammal''] text
           then ''Animal''
         else ''Other'')"

definition classify_research_domain :: "'a pub_data_scheme \<Rightarrow> string" where
  "classify_research_domain pub =
     (let text = classify_text pub
      in if any_in [''microgravity'', ''weightless'', ''zero gravity''] text
           then ''Microgravity''
         else if any_in [''radiation'', ''cosmic ray'', ''solar particle''] text
           then ''Radiation''
         else if any_in [''bone'', ''skeleton'', ''osteo'', ''density''] text
           then ''Bone/Musculoskeletal''
         else if any_in [''immune'', ''immunity'', ''infection''] text
           then ''Immunology''
         else if any_in [''cardiovascular'', ''heart'', ''circulation''] text
           then ''Cardiovascular''
         else if any_in [''psychological'', ''behavior'', ''stress''] text
           then ''Psychology/Behavior''
         else ''General'')"

text \<open>
  The specification's wording, for comparison: an ordered list of rules, each a label
  with its trigger substrings; the first rule one of whose triggers occurs in the text
  gives the label, and the default applies when none does.
\<close>

fun first_match :: "(string \<times> string list) list \<Rightarrow> string \<Rightarrow> string \<Rightarrow> string" where
  "first_match [] dflt text = dflt"
| "first_match ((label, triggers) # rules) dflt text =
     (if \<exists>w \<in> set triggers. str_in w text then label else first_match rules dflt text)"

definition organism_rules :: "(string \<times> string list) list" where
  "organism_rules =
    [(''Human'', [''human'', ''astronaut'', ''crew'', ''personnel'', ''person'']),
     (''Plant'', [''plant'', ''arabidopsis'', ''crop'', ''vegetation'', ''botanical'']),
     (''Microbe'', [''microbe'', ''bacteria'', ''virus'', ''microbial'', ''pathogen'']),
     (''Animal'', [''animal'', ''mouse'', ''rat'', ''rodent'', ''mammal''])]"

definition domain_rules :: "(string \<times> string list) list" where
  "domain_rules =
    [(''Microgravity'', [''microgravity'', ''weightless'', ''zero gravity'']),
     (''Radiation'', [''radiation'', ''cosmic ray'', ''solar particle'']),
     (''Bone/Musculoskeletal'', [''bone'', ''skeleton'', ''osteo'', ''density'']),
     (''Immunology'', [''immune'', ''immunity'', ''infection'']),
     (''Cardiovascular'', [''cardiovascular'', ''heart'', ''circulation'']),
     (''Psychology/Behavior'', [''psychological'', ''behavior'', ''stress''])]"

section \<open>Keyword extractor (main, \<open>_top_keywords\<close>)\<close>

text \<open>
  The dictionary \<open>freq\<close> keeps its keys in the order of their first insertion, and
  \<open>freq.items()\<close> lists them in that order: an association list.
  \<open>freq_incr t freq\<close> is \<open>freq[t] = freq.get(t, 0) + 1\<close>.
\<close>

fun freq_incr :: "string \<Rightarrow> (string \<times> nat) list \<Rightarrow> (string \<times> nat) list" where
  "freq_incr t [] = [(t, 1)]"
| "freq_incr t ((w, n) # rest) =
     (if w = t then (w, n + 1) # rest else (w, n) # freq_incr t rest)"

definition token_freq :: "string list \<Rightarrow> (string \<times> nat) list" where
  "token_freq toks = foldl (\<lambda>freq t. freq_incr t freq) [] toks"

text \<open>
  \<open>sorted(items, key=lambda kv: kv[1], reverse=True)\<close>: descending in the count, and
  stable (Python keeps the original order of items with equal keys, also under
  \<open>reverse=True\<close>). An item is placed behind the items with a greater count and before
  the later items with the same or a smaller count.
\<close>

fun insert_desc :: "string \<times> nat \<Rightarrow> (string \<times> nat) list \<Rightarrow> (string \<times> nat) list" where
  "insert_desc x [] = [x]"
| "insert_desc x (y # ys) = (if snd x < snd y then y # insert_desc x ys else x # y # ys)"

definition sorted_desc :: "(string \<times> nat) list \<Rightarrow> (string \<times> nat) list" where
  "sorted_desc items = foldr insert_desc items []"

text \<open>The slice \<open>xs[:k]\<close>; a negative \<open>k\<close> counts from the end.\<close>

definition slice_to :: "int \<Rightarrow> 'a list \<Rightarrow> 'a list" where
  "slice_to k xs = (if 0 \<le> k then take (nat k) xs else take (length xs - nat (- k)) xs)"

definition top_keywords :: "string \<Rightarrow> int \<Rightarrow> string list" where
  "top_keywords text k = map fst (slice_to k (sorted_desc (token_freq (tokens text))))"

text \<open>The distinct tokens in the order in which each is first seen.\<close>

fun first_seen :: "string list \<Rightarrow> string list" where
  "first_seen [] = []"
| "first_seen (t # ts) = t # filter (\<lambda>u. u \<noteq> t) (first_seen ts)"

text \<open>All distinct tokens of a text, ranked as the extractor ranks them.\<close>

definition ranking :: "string \<Rightarrow> string list" where
  "ranking text = map fst (sorted_desc (token_freq (tokens text)))"

section \<open>Date parsing (fetcher, \<open>_parse_date\<close>)\<close>



















section \<open>Database (models and service)\<close>

text \<open>
  The tables the service reads and writes, each a list of rows in insertion order, with
  the columns the service sets (the other columns keep their defaults; the timestamps
  \<open>created_at\<close>, \<open>updated_at\<close> and \<open>last_sync\<close> are left out). The database is SQLite.
  \<open>inactive\<close> is the state of the SQLAlchemy session after a failed flush: the
  transaction is rolled back, and until \<open>rollback()\<close> is called, which the service
  never does, every further query or flush raises.
\<close>

record publication =
  pub_id :: nat
  pub_nasa_id :: "string option"
  pub_title :: string
  pub_abstract :: "string option"
  pub_doi :: "string option"
  pub_url :: "string option"
  pub_publication_date :: "datetime option"
  pub_publication_year :: "int option"
  pub_publication_type :: "string option"
  pub_journal_name :: "string option"
  pub_organism_type :: "string option"
  pub_research_domain :: "string option"

record author =
  author_id :: nat
  author_name :: string

record keyword =
  keyword_id :: nat
  keyword_term :: string
  usage_count :: int

record search_index =
  si_id :: nat
  si_publication_id :: nat
  si_content :: string

record data_source =
  ds_id :: nat
  ds_name :: string
  total_records :: int

record database =
  db_publications :: "publication list"
  db_authors :: "author list"
  db_keywords :: "keyword list"
  db_publication_authors :: "(nat \<times> nat) list"
  db_publication_keywords :: "(nat \<times> nat) list"
  db_search_entries :: "search_index list"
  db_data_sources :: "data_source list"
  inactive :: bool

datatype error = PendingRollbackError | IntegrityError | OverflowError

text \<open>
  SQLite stores an integer in 64 bits, signed; binding a Python \<open>int\<close> outside that
  range to a statement raises \<open>OverflowError\<close>. \<open>bindable\<close> is the same for a value that
  may be \<open>None\<close>.
\<close>

definition in_int64 :: "int \<Rightarrow> bool" where
  "in_int64 n = (- (2 ^ 63) \<le> n \<and> n < 2 ^ 63)"

definition bindable :: "int option \<Rightarrow> bool" where
  "bindable v = (case v of None \<Rightarrow> True | Some n \<Rightarrow> in_int64 n)"

text \<open>The key SQLite gives a new row of an \<open>INTEGER PRIMARY KEY\<close> table: one above the largest.\<close>

definition next_id :: "nat list \<Rightarrow> nat" where
  "next_id ids = Suc (fold max ids 0)"

text \<open>The position of the row that \<open>.first()\<close> returns.\<close>

fun first_index :: "('a \<Rightarrow> bool) \<Rightarrow> 'a list \<Rightarrow> nat option" where
  "first_index P [] = None"
| "first_index P (x # xs) = (if P x then Some 0 else map_option Suc (first_index P xs))"

subsection \<open>\<open>_add_authors_to_publication\<close>\<close>

definition add_author :: "nat \<Rightarrow> string \<Rightarrow> database \<Rightarrow> database" where
  "add_author pid name db =
     (if strip name = [] then db
      else
        let (a, db1) =
              (case find (\<lambda>a. author_name a = strip name) (db_authors db) of
                 Some a \<Rightarrow> (a, db)
               | None \<Rightarrow>
                   (let a = \<lparr>author_id = next_id (map author_id (db_authors db)),
                             author_name = strip name\<rparr>
                    in (a, db\<lparr>db_authors := db_authors db @ [a]\<rparr>)))
        in if (pid, author_id a) \<in> set (db_publication_authors db1) then db1
           else db1\<lparr>db_publication_authors := db_publication_authors db1 @ [(pid, author_id a)]\<rparr>)"

definition add_authors_to_publication :: "nat \<Rightarrow> string list \<Rightarrow> database \<Rightarrow> database" where
  "add_authors_to_publication pid author_names db =
     foldl (\<lambda>d name. add_author pid name d) db author_names"

subsection \<open>\<open>_add_keywords_to_publication\<close>\<close>

text \<open>
  One turn of the loop. The keyword object that the query finds, or the new one, is the
  row at position \<open>i\<close>; its counter is incremented, and then the keyword is attached
  unless the publication has it already.
\<close>

definition add_keyword :: "nat \<Rightarrow> string \<Rightarrow> database \<Rightarrow> database" where
  "add_keyword pid keyword_term_raw db =
     (if strip keyword_term_raw = [] then db
      else
        let (i, db1) =
              (case first_index (\<lambda>k. keyword_term k = strip keyword_term_raw) (db_keywords db) of
                 Some i \<Rightarrow> (i, db)
               | None \<Rightarrow>
                   (length (db_keywords db),
                    db\<lparr>db_keywords := db_keywords db @
                         [\<lparr>keyword_id = next_id (map keyword_id (db_keywords db)),
                           keyword_term = strip keyword_term_raw, usage_count = 0\<rparr>]\<rparr>));
            k = db_keywords db1 ! i;
            db2 = db1\<lparr>db_keywords := (db_keywords db1)[i := k\<lparr>usage_count := usage_count k + 1\<rparr>]\<rparr>
        in if (pid, keyword_id k) \<in> set (db_publication_keywords db2) then db2
           else db2\<lparr>db_publication_keywords := db_publication_keywords db2 @ [(pid, keyword_id k)]\<rparr>)"

definition add_keywords_to_publication :: "nat \<Rightarrow> string list \<Rightarrow> database \<Rightarrow> database" where
  "add_keywords_to_publication pid kws db =
     foldl (\<lambda>d keyword_term_raw. add_keyword pid keyword_term_raw d) db kws"

text \<open>
  The usage counter recorded for a term: the sum over the rows with that term (the
  column \<open>term\<close> is unique, so there is at most one such row), 0 when there is none.
\<close>

definition usage_of :: "database \<Rightarrow> string \<Rightarrow> int" where
  "usage_of db t = sum_list (map usage_count (filter (\<lambda>k. keyword_term k = t) (db_keywords db)))"

subsection \<open>\<open>create_publication\<close>\<close>

definition create_search_index :: "publication \<Rightarrow> database \<Rightarrow> database" where
  "create_search_index p db =
     db\<lparr>db_search_entries := db_search_entries db @
          [\<lparr>si_id = next_id (map si_id (db_search_entries db)),
            si_publication_id = pub_id p,
            si_content =
              strip (pub_title p @ '' '' @
                     (case pub_abstract p of None \<Rightarrow> [] | Some a \<Rightarrow> a))\<rparr>]\<rparr>"

text \<open>
  The result is the publication returned or the exception raised, with the database
  as the call leaves it. The flush of the new row raises \<open>OverflowError\<close> when the
  publication year cannot be bound, and \<open>IntegrityError\<close> when the title is null
  (\<open>nullable=False\<close>) or the DOI, if not null, is that of a stored publication
  (\<open>unique=True\<close>); the new row is then not stored and the session is left inactive.
\<close>

definition create_publication :: "pub_data \<Rightarrow> database \<Rightarrow> (error + publication) \<times> database" where
  "create_publication pub_data db =
     (if inactive db then (Inl PendingRollbackError, db)
      else
        case find (\<lambda>p. pub_nasa_id p = pd_nasa_id pub_data) (db_publications db) of
          Some existing \<Rightarrow> (Inr existing, db)
        | None \<Rightarrow>
            if \<not> bindable (pd_publication_year pub_data)
            then (Inl OverflowError, db\<lparr>inactive := True\<rparr>)
            else
            (case pd_title pub_data of
               None \<Rightarrow> (Inl IntegrityError, db\<lparr>inactive := True\<rparr>)
             | Some t \<Rightarrow>
                 if pd_doi pub_data \<noteq> None \<and>
                    pd_doi pub_data \<in> set (map pub_doi (db_publications db))
                 then (Inl IntegrityError, db\<lparr>inactive := True\<rparr>)
                 else
                   let publication =
                         \<lparr>pub_id = next_id (map pub_id (db_publications db)),
                          pub_nasa_id = pd_nasa_id pub_data,
                          pub_title = t,
                          pub_abstract = pd_abstract pub_data,
                          pub_doi = pd_doi pub_data,
                          pub_url = pd_url pub_data,
                          pub_publication_date = pd_publication_date pub_data,
                          pub_publication_year = pd_publication_year pub_data,
                          pub_publication_type = pd_publication_type pub_data,
                          pub_journal_name = pd_journal_name pub_data,
                          pub_organism_type = Some (classify_organism_type pub_data),
                          pub_research_domain = Some (classify_research_domain pub_data)\<rparr>;
                       db1 = db\<lparr>db_publications := db_publications db @ [publication]\<rparr>;
                       db2 = add_authors_to_publication (pub_id publication)
                               (pd_authors pub_data) db1;
                       db3 = add_keywords_to_publication (pub_id publication)
                               (pd_keywords pub_data) db2;
                       db4 = create_search_index publication db3
                   in (Inr publication, db4)))"

subsection \<open>\<open>search_publications\<close>\<close>










text \<open>
  \<open>ORDER BY publication_year DESC\<close>: SQLite sorts null below every number, so the rows
  without a year come last. SQL leaves the order of rows with equal years open, and
  what SQLite returns depends on the plan it takes for the query: a backward scan of
  the index on \<open>publication_year\<close> (the plan without filters, or with the text query
  alone) gives rows of equal year in reverse table order, a sort behind a search in the
  index of another column gives them in table order. The order in which the engine
  returns the selected rows is therefore a parameter \<open>order_by\<close> of the search;
  \<open>year_desc_order\<close> says what \<open>ORDER BY\<close> guarantees of it, and \<open>order_by_year_desc\<close> and
  \<open>index_scan_desc\<close> are the two orders named above.
\<close>

definition year_le :: "int option \<Rightarrow> int option \<Rightarrow> bool" where
  "year_le a b =
     (case a of None \<Rightarrow> True | Some x \<Rightarrow> (case b of None \<Rightarrow> False | Some y \<Rightarrow> x \<le> y))"

fun insert_year_desc :: "publication \<Rightarrow> publication list \<Rightarrow> publication list" where
  "insert_year_desc p [] = [p]"
| "insert_year_desc p (q # qs) =
     (if year_le (pub_publication_year q) (pub_publication_year p) then p # q # qs
      else q # insert_year_desc p qs)"

definition order_by_year_desc :: "publication list \<Rightarrow> publication list" where
  "order_by_year_desc ps = foldr insert_year_desc ps []"


definition year_desc_order :: "(publication list \<Rightarrow> publication list) \<Rightarrow> publication list \<Rightarrow> bool" where
  "year_desc_order order_by rows =
     (mset (order_by rows) = mset rows \<and>
      sorted_wrt (\<lambda>a b. year_le (pub_publication_year b) (pub_publication_year a))
        (order_by rows))"









subsection \<open>\<open>ingest_nasa_data\<close>\<close>

text \<open>
  The three searches of \<open>NASADataFetcher\<close> go to the network; each catches its own
  exceptions and returns the list of records it has parsed. They are parameters here.
\<close>

record fetcher =
  search_nasa_techreports :: "int \<Rightarrow> pub_data list"
  search_nasa_open_data :: "pub_data list"
  search_pubspace :: "int \<Rightarrow> pub_data list"

text \<open>
  An entry of the list \<open>errors\<close>: the message "Error processing <title>: ..." of a record,
  or "Error fetching from <source>: ...".
\<close>

datatype ingest_error =
  ErrorProcessing "string option" error
| ErrorFetching string error

record ingest_result =
  ir_source :: string
  ir_ingested :: nat
  ir_errors :: "ingest_error list"

text \<open>One turn of the loop that stores the publications.\<close>

definition store_publication ::
    "pub_data \<Rightarrow> nat \<times> ingest_error list \<times> database \<Rightarrow> nat \<times> ingest_error list \<times> database" where
  "store_publication pub_data st =
     (case st of (ingested, errors, db) \<Rightarrow>
        let pub_data1 = pub_data\<lparr>pd_organism_type := Some (classify_organism_type pub_data)\<rparr>;
            pub_data2 = pub_data1\<lparr>pd_research_domain := Some (classify_research_domain pub_data1)\<rparr>
        in case create_publication pub_data2 db of
             (Inr p, db') \<Rightarrow> (ingested + 1, errors, db')
           | (Inl e, db') \<Rightarrow> (ingested, errors @ [ErrorProcessing (pd_title pub_data2) e], db'))"

definition update_data_source :: "string \<Rightarrow> nat \<Rightarrow> database \<Rightarrow> error + database" where
  "update_data_source source_name records_count db =
     (if inactive db then Inl PendingRollbackError
      else
        let (i, db1) =
              (case first_index (\<lambda>d. ds_name d = source_name) (db_data_sources db) of
                 Some i \<Rightarrow> (i, db)
               | None \<Rightarrow>
                   (length (db_data_sources db),
                    db\<lparr>db_data_sources := db_data_sources db @
                         [\<lparr>ds_id = next_id (map ds_id (db_data_sources db)),
                           ds_name = source_name, total_records = 0\<rparr>]\<rparr>));
            d = db_data_sources db1 ! i
        in Inr (db1\<lparr>db_data_sources :=
                  (db_data_sources db1)[i := d\<lparr>total_records := total_records d + int records_count\<rparr>]\<rparr>))"

text \<open>The body of \<open>ingest_nasa_data\<close> behind the choice of the sources.\<close>

definition store_all :: "string \<Rightarrow> pub_data list \<Rightarrow> database \<Rightarrow> ingest_result \<times> database" where
  "store_all source_name publications db =
     (case foldl (\<lambda>st pub_data. store_publication pub_data st) (0, [], db) publications of
        (ingested, errors, db1) \<Rightarrow>
          (case update_data_source source_name ingested db1 of
             Inr db2 \<Rightarrow>
               (\<lparr>ir_source = source_name, ir_ingested = ingested, ir_errors = errors\<rparr>, db2)
           | Inl e \<Rightarrow>
               (\<lparr>ir_source = source_name, ir_ingested = ingested,
                 ir_errors = errors @ [ErrorFetching source_name e]\<rparr>, db1)))"

definition ingest_nasa_data ::
    "fetcher \<Rightarrow> string \<Rightarrow> int \<Rightarrow> database \<Rightarrow> ingest_result \<times> database" where
  "ingest_nasa_data fetcher source_name limit db =
     (let publications =
            (if lower source_name = ''ntrs'' then search_nasa_techreports fetcher limit
             else if lower source_name = ''open_data'' then search_nasa_open_data fetcher
             else if lower source_name = ''pubspace'' then search_pubspace fetcher limit
             else search_nasa_techreports fetcher (limit div 3) @
                  search_nasa_open_data fetcher @
                  search_pubspace fetcher (limit div 3))
      in store_all source_name publications db)"

text \<open>
  For the properties of the ingestion: \<open>stored_from d p\<close> says that the row \<open>p\<close> is the one
  \<open>create_publication\<close> writes for the record \<open>d\<close>, and \<open>source_total\<close> is the number of
  records booked on the data sources of a name.
\<close>

definition stored_from :: "pub_data \<Rightarrow> publication \<Rightarrow> bool" where
  "stored_from d p =
     (pub_nasa_id p = pd_nasa_id d \<and> pd_title d = Some (pub_title p) \<and>
      pub_abstract p = pd_abstract d \<and> pub_doi p = pd_doi d \<and> pub_url p = pd_url d \<and>
      pub_publication_date p = pd_publication_date d \<and>
      pub_publication_year p = pd_publication_year d \<and>
      pub_publication_type p = pd_publication_type d \<and>
      pub_journal_name p = pd_journal_name d \<and>
      pub_organism_type p = Some (classify_organism_type d) \<and>
      pub_research_domain p = Some (classify_research_domain d))"

definition source_total :: "database \<Rightarrow> string \<Rightarrow> int" where
  "source_total db s =
     sum_list (map total_records (filter (\<lambda>d. ds_name d = s) (db_data_sources db)))"

subsection \<open>Example data\<close>

definition empty_database :: database where
  "empty_database =
     \<lparr>db_publications = [], db_authors = [], db_keywords = [], db_publication_authors = [],
      db_publication_keywords = [], db_search_entries = [], db_data_sources = [],
      inactive = False\<rparr>"

text \<open>The first sample publication of \<open>init_database.py\<close>.\<close>

definition sample_1 :: pub_data where
  "sample_1 =
     \<lparr>pd_nasa_id = Some ''sample-1'',
      pd_title = Some ''Microgravity Effects on Human Bone Density'',
      pd_abstract = Some ''Microgravity accelerates bone density loss in astronauts.'',
      pd_authors = [''Smith, J.'', ''Johnson, M.''],
      pd_publication_date = None,
      pd_publication_year = Some 2014,
      pd_url = None,
      pd_publication_type = Some ''journal_article'',
      pd_keywords = [''microgravity'', ''bone density'', ''astronauts'', ''exercise''],
      pd_doi = None,
      pd_journal_name = None,
      pd_organism_type = None,
      pd_research_domain = None\<rparr>"





definition crop_report :: pub_data where
  "crop_report =
     \<lparr>pd_nasa_id = Some ''r-1'', pd_title = Some ''Crop'', pd_abstract = Some ''Stress'',
      pd_authors = [''Lee''], pd_publication_date = None, pd_publication_year = Some 2020,
      pd_url = None, pd_publication_type = Some ''technical_report'', pd_keywords = [''crop''],
      pd_doi = None, pd_journal_name = None, pd_organism_type = None,
      pd_research_domain = None\<rparr>"

definition one_fetcher :: fetcher where
  "one_fetcher =
     \<lparr>search_nasa_techreports = (\<lambda>limit. [crop_report]),
      search_nasa_open_data = [],
      search_pubspace = (\<lambda>limit. [])\<rparr>"

section \<open>Properties\<close>

subsection \<open>Substrings\<close>

lemma str_in_iff: "str_in w t \<longleftrightarrow> (\<exists>p s. t = p @ w @ s)"
proof (induction t)
  case Nil
  then show ?case by auto
next
  case (Cons c cs)
  show ?case
  proof
    assume "str_in w (c # cs)"
    then consider "prefix w (c # cs)" | "str_in w cs" by auto
    then show "\<exists>p s. c # cs = p @ w @ s"
    proof cases
      case 1
      then obtain s where "c # cs = w @ s" by (auto simp: prefix_def)
      then have "c # cs = [] @ w @ s" by simp
      then show ?thesis by blast
    next
      case 2
      with Cons.IH obtain p s where "cs = p @ w @ s" by blast
      then have "c # cs = (c # p) @ w @ s" by simp
      then show ?thesis by blast
    qed
  next
    assume "\<exists>p s. c # cs = p @ w @ s"
    then obtain p s where ps: "c # cs = p @ w @ s" by blast
    show "str_in w (c # cs)"
    proof (cases p)
      case Nil
      with ps have "prefix w (c # cs)" by (simp add: prefix_def)
      then show ?thesis by simp
    next
      case (Cons a p')
      with ps have "cs = p' @ w @ s" by simp
      with Cons.IH have "str_in w cs" by blast
      then show ?thesis by simp
    qed
  qed
qed

lemma str_in_trans: "str_in a b \<Longrightarrow> str_in b t \<Longrightarrow> str_in a t"
proof -
  assume "str_in a b" and "str_in b t"
  then obtain p s p' s' where "b = p @ a @ s" and "t = p' @ b @ s'"
    by (auto simp: str_in_iff)
  then have "t = (p' @ p) @ a @ (s @ s')" by simp
  then show ?thesis unfolding str_in_iff by blast
qed

subsection \<open>Year extraction\<close>

lemma digit_run_at_Suc: "digit_run_at (a # t) (Suc j) = digit_run_at t j"
  by (auto simp: digit_run_at_def)

lemma digit_run_at_0:
  "digit_run_at (a # b # c # d # rest) 0 = (is_digit a \<and> is_digit b \<and> is_digit c \<and> is_digit d)"
  by (simp add: digit_run_at_def)

lemma digit_run_at_short: "length s < 4 \<Longrightarrow> \<not> digit_run_at s i"
  by (simp add: digit_run_at_def)

lemma search_4digits_leftmost:
  "digit_run_at s i \<Longrightarrow> (\<forall>j<i. \<not> digit_run_at s j) \<Longrightarrow>
   search_4digits s = Some (take 4 (drop i s))"
proof (induction s arbitrary: i rule: search_4digits.induct)
  case (1 a b c d rest)
  show ?case
  proof (cases "is_digit a \<and> is_digit b \<and> is_digit c \<and> is_digit d")
    case True
    then have "digit_run_at (a # b # c # d # rest) 0" by (simp add: digit_run_at_0)
    with "1.prems"(2) have "i = 0" by (cases i) auto
    with True show ?thesis by simp
  next
    case False
    then have n0: "\<not> digit_run_at (a # b # c # d # rest) 0" by (simp add: digit_run_at_0)
    with "1.prems"(1) obtain i' where i: "i = Suc i'" by (cases i) auto
    from "1.prems"(1) i have r: "digit_run_at (b # c # d # rest) i'"
      by (simp add: digit_run_at_Suc)
    have "\<forall>j<i'. \<not> digit_run_at (b # c # d # rest) j"
    proof (intro allI impI)
      fix j assume "j < i'"
      then have "Suc j < i" using i by simp
      with "1.prems"(2) have "\<not> digit_run_at (a # b # c # d # rest) (Suc j)" by blast
      then show "\<not> digit_run_at (b # c # d # rest) j" by (simp add: digit_run_at_Suc)
    qed
    with "1.IH" False r have "search_4digits (b # c # d # rest) = Some (take 4 (drop i' (b # c # d # rest)))"
      by blast
    moreover from False
    have "search_4digits (a # b # c # d # rest) = search_4digits (b # c # d # rest)"
      by (subst search_4digits.simps) (simp only: if_False)
    ultimately show ?thesis using i by simp
  qed
qed (simp_all add: digit_run_at_short)

lemma search_4digits_none:
  "(\<forall>i. \<not> digit_run_at s i) \<Longrightarrow> search_4digits s = None"
proof (induction s rule: search_4digits.induct)
  case (1 a b c d rest)
  from "1.prems" have n0: "\<not> digit_run_at (a # b # c # d # rest) 0" by blast
  then have nd: "\<not> (is_digit a \<and> is_digit b \<and> is_digit c \<and> is_digit d)"
    by (simp add: digit_run_at_0)
  have "\<forall>i. \<not> digit_run_at (b # c # d # rest) i"
  proof
    fix i
    from "1.prems" have "\<not> digit_run_at (a # b # c # d # rest) (Suc i)" by blast
    then show "\<not> digit_run_at (b # c # d # rest) i" by (simp add: digit_run_at_Suc)
  qed
  with "1.IH" nd have "search_4digits (b # c # d # rest) = None" by blast
  moreover from nd
  have "search_4digits (a # b # c # d # rest) = search_4digits (b # c # d # rest)"
    by (subst search_4digits.simps) (simp only: if_False)
  ultimately show ?case by simp
qed simp_all

lemma digit_run_at_nonempty: "digit_run_at s i \<Longrightarrow> s \<noteq> []"
  by (auto simp: digit_run_at_def)

text \<open>
  C6 (amended). Year extraction looks only at the leftmost place where four digits stand
  in a row: when that run starts at position \<open>i\<close>, the result is its value if the value
  lies in [1900, 2030] and null otherwise, whatever follows in the string; a string with
  no four digits in a row gives null. So "2015-03-01T00:00:00Z" gives 2015, "not a date"
  gives null and "1875" gives null.
\<close>

theorem extract_year_leftmost_run:
  "(digit_run_at s i \<and> (\<forall>j<i. \<not> digit_run_at s j) \<longrightarrow>
      extract_year (Some s) =
        (let year = int_of_digits (take 4 (drop i s))
         in if 1900 \<le> year \<and> year \<le> 2030 then Some year else None)) \<and>
   ((\<forall>k. \<not> digit_run_at s k) \<longrightarrow> extract_year (Some s) = None) \<and>
   extract_year None = None \<and>
   extract_year (Some ''2015-03-01T00:00:00Z'') = Some 2015 \<and>
   extract_year (Some ''not a date'') = None \<and>
   extract_year (Some ''1875'') = None"
proof (intro conjI impI)
  assume h: "digit_run_at s i \<and> (\<forall>j<i. \<not> digit_run_at s j)"
  then have "search_4digits s = Some (take 4 (drop i s))"
    by (simp add: search_4digits_leftmost)
  moreover from h have "s \<noteq> []" by (blast dest: digit_run_at_nonempty)
  ultimately show "extract_year (Some s) =
        (let year = int_of_digits (take 4 (drop i s))
         in if 1900 \<le> year \<and> year \<le> 2030 then Some year else None)"
    by (simp add: extract_year_def)
next
  assume "\<forall>k. \<not> digit_run_at s k"
  then have "search_4digits s = None" by (rule search_4digits_none)
  then show "extract_year (Some s) = None" by (simp add: extract_year_def)
next
  show "extract_year None = None" by (simp add: extract_year_def)
  show "extract_year (Some ''2015-03-01T00:00:00Z'') = Some 2015" by code_simp
  show "extract_year (Some ''not a date'') = None" by code_simp
  show "extract_year (Some ''1875'') = None" by code_simp
qed

theorem extract_year_leftmost_run_witness:
  "digit_run_at ''on 2015-03-01'' 3 \<and>
   \<not> digit_run_at ''on 2015-03-01'' 0 \<and> \<not> digit_run_at ''on 2015-03-01'' 1 \<and>
   \<not> digit_run_at ''on 2015-03-01'' 2 \<and>
   extract_year (Some ''on 2015-03-01'') = Some 2015 \<and>
   (\<forall>k. \<not> digit_run_at ''n/a'' k) \<and> extract_year (Some ''n/a'') = None"
proof -
  have a: "digit_run_at ''on 2015-03-01'' 3" by code_simp
  have b0: "\<not> digit_run_at ''on 2015-03-01'' 0" by code_simp
  have b1: "\<not> digit_run_at ''on 2015-03-01'' 1" by code_simp
  have b2: "\<not> digit_run_at ''on 2015-03-01'' 2" by code_simp
  have b: "\<forall>j<3. \<not> digit_run_at ''on 2015-03-01'' j"
  proof (intro allI impI)
    fix j :: nat assume "j < 3"
    then consider "j = 0" | "j = 1" | "j = 2" by linarith
    then show "\<not> digit_run_at ''on 2015-03-01'' j"
      using b0 b1 b2 by cases simp_all
  qed
  have c: "\<forall>k. \<not> digit_run_at ''n/a'' k" by (simp add: digit_run_at_def)
  have v: "int_of_digits (take 4 (drop 3 ''on 2015-03-01'')) = 2015" by code_simp
  from extract_year_leftmost_run [of "''on 2015-03-01''" 3] a b v
  have d: "extract_year (Some ''on 2015-03-01'') = Some 2015" by simp
  from extract_year_leftmost_run [of "''n/a''" 0] c
  have e: "extract_year (Some ''n/a'') = None" by blast
  from a b0 b1 b2 c d e show ?thesis by blast
qed

text \<open>
  The string "1875-2015" holds the four digits 2015, a value within [1900, 2030], and
  yet no year is returned: the leftmost run, 1875, is the only one examined.
\<close>

theorem extract_year_later_run_counterexample:
  "digit_run_at ''1875-2015'' 5 \<and>
   int_of_digits (take 4 (drop 5 ''1875-2015'')) = 2015 \<and>
   extract_year (Some ''1875-2015'') = None"
  by code_simp

subsection \<open>Tokenizer\<close>







subsection \<open>Classifier\<close>

lemma any_in_iff: "any_in ws text \<longleftrightarrow> (\<exists>w \<in> set ws. str_in w text)"
  by (simp add: any_in_def list_ex_iff)

lemma classify_organism_first_match:
  "classify_organism_type pub = first_match organism_rules ''Other'' (classify_text pub)"
  by (simp add: classify_organism_type_def organism_rules_def any_in_iff Let_def)

lemma classify_domain_first_match:
  "classify_research_domain pub = first_match domain_rules ''General'' (classify_text pub)"
  by (simp add: classify_research_domain_def domain_rules_def any_in_iff Let_def)

lemma str_in_bone_density: "str_in ''bone density'' t \<Longrightarrow> str_in ''bone'' t"
proof -
  have "str_in ''bone'' ''bone density''" by code_simp
  then show "str_in ''bone density'' t \<Longrightarrow> str_in ''bone'' t" by (rule str_in_trans)
qed

text \<open>
  C2. For a title and an abstract, both classifications read
  \<open>lowercase(title + " " + abstract)\<close> and are first-match-wins over the fixed ordered rule
  lists (organism: Human, Plant, Microbe, Animal, default Other; domain: Microgravity,
  Radiation, Bone/Musculoskeletal, Immunology, Cardiovascular, Psychology/Behavior,
  default General). The two labels are independent: a text containing "astronaut"
  is labelled Human; a text containing "human" and "bone density", and no trigger of
  the Microgravity or Radiation rules, is labelled Human and Bone/Musculoskeletal.
\<close>

theorem classify_first_match_wins:
  fixes pub :: "'a pub_data_scheme"
  shows
  "pd_title pub = Some title \<Longrightarrow> pd_abstract pub = Some abstract \<Longrightarrow>
   combined = lower (title @ '' '' @ abstract) \<Longrightarrow>
   classify_organism_type pub = first_match organism_rules ''Other'' combined \<and>
   classify_research_domain pub = first_match domain_rules ''General'' combined \<and>
   (str_in ''astronaut'' combined \<longrightarrow> classify_organism_type pub = ''Human'') \<and>
   (str_in ''human'' combined \<and> str_in ''bone density'' combined \<and>
    \<not> any_in [''microgravity'', ''weightless'', ''zero gravity'',
               ''radiation'', ''cosmic ray'', ''solar particle''] combined \<longrightarrow>
      classify_organism_type pub = ''Human'' \<and>
      classify_research_domain pub = ''Bone/Musculoskeletal'')"
proof -
  assume t: "pd_title pub = Some title" and a: "pd_abstract pub = Some abstract"
    and x: "combined = lower (title @ '' '' @ abstract)"
  from t a x have ct: "classify_text pub = combined" by (simp add: classify_text_def fmt_def)
  have o: "classify_organism_type pub = first_match organism_rules ''Other'' combined"
    using classify_organism_first_match [of pub] ct by simp
  have d: "classify_research_domain pub = first_match domain_rules ''General'' combined"
    using classify_domain_first_match [of pub] ct by simp
  have h1: "str_in ''astronaut'' combined \<longrightarrow> classify_organism_type pub = ''Human''"
    unfolding o by (simp add: organism_rules_def)
  have h2: "str_in ''human'' combined \<and> str_in ''bone density'' combined \<and>
    \<not> any_in [''microgravity'', ''weightless'', ''zero gravity'',
               ''radiation'', ''cosmic ray'', ''solar particle''] combined \<longrightarrow>
      classify_organism_type pub = ''Human'' \<and>
      classify_research_domain pub = ''Bone/Musculoskeletal''"
  proof (intro impI conjI)
    assume h: "str_in ''human'' combined \<and> str_in ''bone density'' combined \<and>
      \<not> any_in [''microgravity'', ''weightless'', ''zero gravity'',
               ''radiation'', ''cosmic ray'', ''solar particle''] combined"
    then show "classify_organism_type pub = ''Human''"
      unfolding o by (simp add: organism_rules_def)
    from h have "str_in ''bone'' combined" by (blast intro: str_in_bone_density)
    with h show "classify_research_domain pub = ''Bone/Musculoskeletal''"
      unfolding d by (simp add: domain_rules_def any_in_iff)
  qed
  from o d h1 h2 show ?thesis by blast
qed

theorem classify_first_match_wins_witness:
  "str_in ''astronaut'' ''human bone density an astronaut study'' \<and>
   str_in ''human'' ''human bone density an astronaut study'' \<and>
   str_in ''bone density'' ''human bone density an astronaut study'' \<and>
   \<not> any_in [''microgravity'', ''weightless'', ''zero gravity'',
              ''radiation'', ''cosmic ray'', ''solar particle'']
        ''human bone density an astronaut study'' \<and>
   classify_organism_type
     \<lparr>pd_nasa_id = Some ''w-1'', pd_title = Some ''Human Bone Density'',
      pd_abstract = Some ''An astronaut study'', pd_authors = [],
      pd_publication_date = None, pd_publication_year = None, pd_url = None,
      pd_publication_type = Some ''unknown'', pd_keywords = [], pd_doi = None,
      pd_journal_name = None, pd_organism_type = None, pd_research_domain = None\<rparr>
     = ''Human'' \<and>
   classify_research_domain
     \<lparr>pd_nasa_id = Some ''w-1'', pd_title = Some ''Human Bone Density'',
      pd_abstract = Some ''An astronaut study'', pd_authors = [],
      pd_publication_date = None, pd_publication_year = None, pd_url = None,
      pd_publication_type = Some ''unknown'', pd_keywords = [], pd_doi = None,
      pd_journal_name = None, pd_organism_type = None, pd_research_domain = None\<rparr>
     = ''Bone/Musculoskeletal''"
proof -
  let ?t = "''human bone density an astronaut study''"
  have l: "?t = lower (''Human Bone Density'' @ '' '' @ ''An astronaut study'')"
    by code_simp
  have h1: "str_in ''astronaut'' ?t" by code_simp
  have h2: "str_in ''human'' ?t" by code_simp
  have h3: "str_in ''bone density'' ?t" by code_simp
  have h4: "\<not> any_in [''microgravity'', ''weightless'', ''zero gravity'',
              ''radiation'', ''cosmic ray'', ''solar particle''] ?t" by code_simp
  let ?p = "\<lparr>pd_nasa_id = Some ''w-1'', pd_title = Some ''Human Bone Density'',
      pd_abstract = Some ''An astronaut study'', pd_authors = [],
      pd_publication_date = None, pd_publication_year = None, pd_url = None,
      pd_publication_type = Some ''unknown'', pd_keywords = [], pd_doi = None,
      pd_journal_name = None, pd_organism_type = None, pd_research_domain = None\<rparr>"
  have p1: "pd_title ?p = Some ''Human Bone Density''" by simp
  have p2: "pd_abstract ?p = Some ''An astronaut study''" by simp
  from classify_first_match_wins [OF p1 p2 l] h1 h2 h3 h4
  show ?thesis by blast
qed

subsection \<open>Keyword extractor\<close>

lemma set_first_seen: "set (first_seen ts) = set ts"
  by (induction ts) auto

lemma distinct_first_seen: "distinct (first_seen ts)"
  by (induction ts) (auto simp: set_first_seen)

lemma first_seen_snoc:
  "first_seen (ts @ [t]) = (if t \<in> set ts then first_seen ts else first_seen ts @ [t])"
  by (induction ts) auto

lemma freq_incr_present:
  "distinct ws \<Longrightarrow> t \<in> set ws \<Longrightarrow>
   freq_incr t (map (\<lambda>w. (w, c w)) ws) = map (\<lambda>w. (w, if w = t then c w + 1 else c w)) ws"
  by (induction ws) auto

lemma freq_incr_absent:
  "t \<notin> set ws \<Longrightarrow> freq_incr t (map (\<lambda>w. (w, c w)) ws) = map (\<lambda>w. (w, c w)) ws @ [(t, 1)]"
  by (induction ws) auto

lemma token_freq_snoc: "token_freq (ts @ [t]) = freq_incr t (token_freq ts)"
  by (simp add: token_freq_def)

lemma token_freq_counts:
  "token_freq toks = map (\<lambda>w. (w, count_list toks w)) (first_seen toks)"
proof (induction toks rule: rev_induct)
  case Nil
  then show ?case by (simp add: token_freq_def)
next
  case (snoc t ts)
  show ?case
  proof (cases "t \<in> set ts")
    case True
    then have "t \<in> set (first_seen ts)" by (simp add: set_first_seen)
    then have "freq_incr t (map (\<lambda>w. (w, count_list ts w)) (first_seen ts)) =
          map (\<lambda>w. (w, if w = t then count_list ts w + 1 else count_list ts w)) (first_seen ts)"
      using distinct_first_seen by (rule freq_incr_present [rotated])
    with True snoc show ?thesis
      by (simp add: token_freq_snoc first_seen_snoc)
  next
    case False
    then have "t \<notin> set (first_seen ts)" by (simp add: set_first_seen)
    then have "freq_incr t (map (\<lambda>w. (w, count_list ts w)) (first_seen ts)) =
          map (\<lambda>w. (w, count_list ts w)) (first_seen ts) @ [(t, 1)]"
      by (rule freq_incr_absent)
    moreover from False have "count_list ts t = 0" by (simp add: count_list_0_iff)
    moreover from False have "\<forall>w \<in> set (first_seen ts). w \<noteq> t" by (auto simp: set_first_seen)
    ultimately show ?thesis using False snoc
      by (auto simp: token_freq_snoc first_seen_snoc)
  qed
qed

lemma set_insert_desc: "set (insert_desc x ys) = insert x (set ys)"
  by (induction ys) auto

lemma length_insert_desc: "length (insert_desc x ys) = Suc (length ys)"
  by (induction ys) auto

lemma sorted_insert_desc:
  "sorted_wrt (\<lambda>a b. snd b \<le> snd a) ys \<Longrightarrow> sorted_wrt (\<lambda>a b. snd b \<le> snd a) (insert_desc x ys)"
  by (induction ys) (auto simp: set_insert_desc)

lemma stable_insert_desc:
  "filter (\<lambda>y. snd y = n) (insert_desc x ys) = filter (\<lambda>y. snd y = n) (x # ys)"
  by (induction ys) auto

lemma set_sorted_desc: "set (sorted_desc items) = set items"
  by (induction items) (auto simp: sorted_desc_def set_insert_desc)

lemma length_sorted_desc: "length (sorted_desc items) = length items"
  by (induction items) (auto simp: sorted_desc_def length_insert_desc)

lemma sorted_sorted_desc: "sorted_wrt (\<lambda>a b. snd b \<le> snd a) (sorted_desc items)"
  by (induction items) (auto simp: sorted_desc_def sorted_insert_desc)

lemma stable_sorted_desc:
  "filter (\<lambda>y. snd y = n) (sorted_desc items) = filter (\<lambda>y. snd y = n) items"
proof (induction items)
  case Nil
  then show ?case by (simp add: sorted_desc_def)
next
  case (Cons x items)
  have "sorted_desc (x # items) = insert_desc x (sorted_desc items)"
    by (simp add: sorted_desc_def)
  then show ?case using Cons by (simp add: stable_insert_desc)
qed

lemma ranking_items:
  "x \<in> set (sorted_desc (token_freq (tokens text))) \<Longrightarrow>
   snd x = count_list (tokens text) (fst x)"
  by (auto simp: set_sorted_desc token_freq_counts)

lemma set_ranking: "set (ranking text) = set (tokens text)"
proof -
  have "set (ranking text) = fst ` set (token_freq (tokens text))"
    by (simp add: ranking_def set_sorted_desc)
  also have "\<dots> = set (first_seen (tokens text))"
    by (force simp: token_freq_counts)
  finally show ?thesis by (simp add: set_first_seen)
qed

lemma length_ranking: "length (ranking text) = card (set (tokens text))"
proof -
  have "length (ranking text) = length (first_seen (tokens text))"
    by (simp add: ranking_def length_sorted_desc token_freq_counts)
  also have "\<dots> = card (set (first_seen (tokens text)))"
    using distinct_first_seen by (simp add: distinct_card)
  finally show ?thesis by (simp add: set_first_seen)
qed

lemma distinct_ranking: "distinct (ranking text)"
proof -
  have "card (set (ranking text)) = length (ranking text)"
    by (simp add: set_ranking length_ranking)
  then show ?thesis by (rule card_distinct)
qed

lemma sorted_ranking:
  "sorted_wrt (\<lambda>a b. count_list (tokens text) b \<le> count_list (tokens text) a) (ranking text)"
proof -
  let ?items = "sorted_desc (token_freq (tokens text))"
  let ?c = "count_list (tokens text)"
  have "sorted_wrt (\<lambda>a b. snd b \<le> snd a) ?items" by (rule sorted_sorted_desc)
  then have "sorted_wrt (\<lambda>a b. ?c (fst b) \<le> ?c (fst a)) ?items"
    by (rule sorted_wrt_mono_rel [rotated]) (simp add: ranking_items)
  then show ?thesis by (simp add: ranking_def sorted_wrt_map)
qed

lemma stable_ranking:
  "filter (\<lambda>w. count_list (tokens text) w = n) (ranking text) =
   filter (\<lambda>w. count_list (tokens text) w = n) (first_seen (tokens text))"
proof -
  let ?items = "sorted_desc (token_freq (tokens text))"
  let ?c = "count_list (tokens text)"
  have "filter (\<lambda>w. ?c w = n) (ranking text) = map fst (filter (\<lambda>x. ?c (fst x) = n) ?items)"
    by (simp add: ranking_def filter_map comp_def)
  also have "filter (\<lambda>x. ?c (fst x) = n) ?items = filter (\<lambda>x. snd x = n) ?items"
    by (rule filter_cong) (simp_all add: ranking_items)
  also have "\<dots> = filter (\<lambda>x. snd x = n) (token_freq (tokens text))"
    by (rule stable_sorted_desc)
  also have "map fst \<dots> = filter (\<lambda>w. ?c w = n) (first_seen (tokens text))"
    by (simp add: token_freq_counts filter_map comp_def)
  finally show ?thesis .
qed

lemma top_keywords_take: "0 \<le> k \<Longrightarrow> top_keywords text k = take (nat k) (ranking text)"
  by (simp add: top_keywords_def ranking_def slice_to_def take_map)

lemma ranking_head:
  assumes w: "w \<in> set (tokens text)"
    and top: "\<forall>v \<in> set (tokens text). v \<noteq> w \<longrightarrow> count_list (tokens text) v < count_list (tokens text) w"
  shows "\<exists>rest. ranking text = w # rest"
proof (cases "ranking text")
  case Nil
  with w set_ranking [of "text"] show ?thesis by simp
next
  case (Cons h rest)
  have "h = w"
  proof (rule ccontr)
    assume ne: "h \<noteq> w"
    from Cons set_ranking [of "text"] have hin: "h \<in> set (tokens text)" by auto
    from w Cons ne set_ranking [of "text"] have "w \<in> set rest" by auto
    with sorted_ranking [of "text"] Cons
    have "count_list (tokens text) w \<le> count_list (tokens text) h" by simp
    moreover from top hin ne
    have "count_list (tokens text) h < count_list (tokens text) w" by blast
    ultimately show False by simp
  qed
  with Cons show ?thesis by simp
qed

text \<open>
  C8 (amended). For every text and every \<open>k \<ge> 0\<close>, the keyword extractor returns the
  first \<open>k\<close> entries of the ranking of the text's distinct tokens, so at most \<open>k\<close> tokens
  and fewer when the text has fewer distinct tokens; the ranking is sorted by
  descending token frequency, and tokens of equal frequency stand in first-seen order
  (the sort is stable). A token that occurs more often than every other token (one
  token five times, the others once each) is first whenever \<open>k \<ge> 1\<close>.
\<close>

theorem top_keywords_ranked:
  "0 \<le> k \<Longrightarrow>
   top_keywords text k = take (nat k) (ranking text) \<and>
   length (top_keywords text k) \<le> nat k \<and>
   length (top_keywords text k) = min (nat k) (card (set (tokens text))) \<and>
   distinct (ranking text) \<and> set (ranking text) = set (tokens text) \<and>
   sorted_wrt (\<lambda>a b. count_list (tokens text) b \<le> count_list (tokens text) a) (ranking text) \<and>
   (\<forall>n. filter (\<lambda>w. count_list (tokens text) w = n) (ranking text) =
        filter (\<lambda>w. count_list (tokens text) w = n) (first_seen (tokens text))) \<and>
   (1 \<le> k \<and> w \<in> set (tokens text) \<and>
    (\<forall>v \<in> set (tokens text). v \<noteq> w \<longrightarrow>
        count_list (tokens text) v < count_list (tokens text) w) \<longrightarrow>
      (\<exists>rest. top_keywords text k = w # rest))"
proof -
  assume k: "0 \<le> k"
  have t: "top_keywords text k = take (nat k) (ranking text)"
    using k by (rule top_keywords_take)
  have l1: "length (top_keywords text k) \<le> nat k" by (simp add: t)
  have l2: "length (top_keywords text k) = min (nat k) (card (set (tokens text)))"
    by (simp add: t length_ranking min.commute)
  have st: "\<forall>n. filter (\<lambda>w. count_list (tokens text) w = n) (ranking text) =
        filter (\<lambda>w. count_list (tokens text) w = n) (first_seen (tokens text))"
    by (simp add: stable_ranking)
  have hd: "1 \<le> k \<and> w \<in> set (tokens text) \<and>
    (\<forall>v \<in> set (tokens text). v \<noteq> w \<longrightarrow>
        count_list (tokens text) v < count_list (tokens text) w) \<longrightarrow>
      (\<exists>rest. top_keywords text k = w # rest)"
  proof
    assume h: "1 \<le> k \<and> w \<in> set (tokens text) \<and>
      (\<forall>v \<in> set (tokens text). v \<noteq> w \<longrightarrow>
        count_list (tokens text) v < count_list (tokens text) w)"
    then obtain rest where r: "ranking text = w # rest"
      using ranking_head [of w "text"] by blast
    from h obtain m where m: "nat k = Suc m" by (cases "nat k") auto
    from r m have "top_keywords text k = w # take m rest" by (simp add: t)
    then show "\<exists>rest. top_keywords text k = w # rest" by blast
  qed
  from t l1 l2 distinct_ranking [of "text"] set_ranking [of "text"] sorted_ranking [of "text"] st hd
  show ?thesis by blast
qed

theorem top_keywords_ranked_witness:
  "(0::int) \<le> 3 \<and>
   tokens ''virus bone plant bone mouse bone crew bone bone'' =
     [''virus'', ''bone'', ''plant'', ''bone'', ''mouse'', ''bone'', ''crew'', ''bone'', ''bone''] \<and>
   count_list (tokens ''virus bone plant bone mouse bone crew bone bone'') ''bone'' = 5 \<and>
   (\<exists>rest. top_keywords ''virus bone plant bone mouse bone crew bone bone'' 3 = ''bone'' # rest) \<and>
   length (top_keywords ''virus bone plant bone mouse bone crew bone bone'' 3) \<le> 3"
proof -
  let ?T = "''virus bone plant bone mouse bone crew bone bone''"
  have tk: "tokens ?T =
     [''virus'', ''bone'', ''plant'', ''bone'', ''mouse'', ''bone'', ''crew'', ''bone'', ''bone'']"
    by code_simp
  have c5: "count_list (tokens ?T) ''bone'' = 5" unfolding tk by simp
  have w: "''bone'' \<in> set (tokens ?T)" unfolding tk by simp
  have top: "\<forall>v \<in> set (tokens ?T). v \<noteq> ''bone'' \<longrightarrow>
      count_list (tokens ?T) v < count_list (tokens ?T) ''bone''"
    unfolding tk by simp
  have k: "(0::int) \<le> 3" by simp
  have k1: "(1::int) \<le> 3" by simp
  from top_keywords_ranked [OF k, of ?T "''bone''"] k1 w top
  have r: "\<exists>rest. top_keywords ?T 3 = ''bone'' # rest" by blast
  from top_keywords_ranked [OF k, of ?T "''bone''"]
  have "length (top_keywords ?T 3) \<le> nat 3" by blast
  then have l: "length (top_keywords ?T 3) \<le> 3" by simp
  from k tk c5 r l show ?thesis by blast
qed

text \<open>
  With \<open>k = -1\<close> the slice \<open>[:k]\<close> drops the last entry of the ranking instead of
  bounding its length: two tokens are returned, which is more than \<open>k\<close>.
\<close>

theorem top_keywords_negative_k_counterexample:
  "top_keywords ''alpha beta gamma'' (- 1) = [''alpha'', ''beta''] \<and>
   \<not> int (length (top_keywords ''alpha beta gamma'' (- 1))) \<le> - 1"
proof -
  have "top_keywords ''alpha beta gamma'' (- 1) = [''alpha'', ''beta'']" by code_simp
  then show ?thesis by simp
qed

subsection \<open>Date parsing\<close>





subsection \<open>Keyword attachment\<close>

lemma first_index_Some: "first_index P xs = Some i \<Longrightarrow> i < length xs \<and> P (xs ! i)"
proof (induction xs arbitrary: i)
  case Nil
  then show ?case by simp
next
  case (Cons x xs)
  show ?case
  proof (cases "P x")
    case True
    with Cons.prems show ?thesis by simp
  next
    case False
    with Cons.prems obtain j where j: "first_index P xs = Some j" and i: "i = Suc j"
      by auto
    from Cons.IH [OF j] i show ?thesis by simp
  qed
qed

lemma usage_sum_update:
  "i < length xs \<Longrightarrow>
   sum_list (map usage_count (filter (\<lambda>k. keyword_term k = t)
     (xs[i := (xs ! i)\<lparr>usage_count := usage_count (xs ! i) + 1\<rparr>]))) =
   sum_list (map usage_count (filter (\<lambda>k. keyword_term k = t) xs)) +
     (if keyword_term (xs ! i) = t then 1 else 0)"
proof (induction xs arbitrary: i)
  case Nil
  then show ?case by simp
next
  case (Cons x xs)
  show ?case
  proof (cases i)
    case 0
    then show ?thesis by simp
  next
    case (Suc j)
    with Cons.prems have "j < length xs" by simp
    from Cons.IH [OF this] Suc show ?thesis by simp
  qed
qed

lemma keywords_add_keyword_found:
  assumes "strip raw \<noteq> []"
    and "first_index (\<lambda>k. keyword_term k = strip raw) (db_keywords db) = Some i"
  shows "db_keywords (add_keyword pid raw db) =
         (db_keywords db)[i := (db_keywords db ! i)\<lparr>usage_count := usage_count (db_keywords db ! i) + 1\<rparr>]"
  using assms by (simp add: add_keyword_def Let_def)

lemma keywords_add_keyword_new:
  assumes "strip raw \<noteq> []"
    and "first_index (\<lambda>k. keyword_term k = strip raw) (db_keywords db) = None"
  shows "db_keywords (add_keyword pid raw db) =
         db_keywords db @ [\<lparr>keyword_id = next_id (map keyword_id (db_keywords db)),
                             keyword_term = strip raw, usage_count = 1\<rparr>]"
  using assms by (simp add: add_keyword_def Let_def)

lemma usage_of_add_keyword:
  "usage_of (add_keyword pid raw db) t =
   usage_of db t + (if strip raw \<noteq> [] \<and> strip raw = t then 1 else 0)"
proof (cases "strip raw = []")
  case True
  then show ?thesis by (simp add: add_keyword_def)
next
  case False
  show ?thesis
  proof (cases "first_index (\<lambda>k. keyword_term k = strip raw) (db_keywords db)")
    case None
    with False show ?thesis
      by (simp add: usage_of_def keywords_add_keyword_new)
  next
    case (Some i)
    then have i: "i < length (db_keywords db)" "keyword_term (db_keywords db ! i) = strip raw"
      using first_index_Some [OF Some] by simp_all
    from False Some show ?thesis
      by (simp add: usage_of_def keywords_add_keyword_found usage_sum_update [OF i(1)] i(2))
  qed
qed

lemma usage_of_add_keywords:
  "usage_of (add_keywords_to_publication pid kws db) t =
   usage_of db t + int (count_list (filter (\<lambda>s. s \<noteq> []) (map strip kws)) t)"
proof (induction kws arbitrary: db)
  case Nil
  then show ?case by (simp add: add_keywords_to_publication_def)
next
  case (Cons raw kws)
  have "add_keywords_to_publication pid (raw # kws) db =
        add_keywords_to_publication pid kws (add_keyword pid raw db)"
    by (simp add: add_keywords_to_publication_def)
  then show ?case by (simp add: Cons.IH usage_of_add_keyword)
qed

lemma links_add_keyword:
  "distinct (db_publication_keywords db) \<Longrightarrow>
   distinct (db_publication_keywords (add_keyword pid raw db))"
  by (simp add: add_keyword_def Let_def split: option.splits)

lemma links_add_keywords:
  "distinct (db_publication_keywords db) \<Longrightarrow>
   distinct (db_publication_keywords (add_keywords_to_publication pid kws db))"
proof (induction kws arbitrary: db)
  case Nil
  then show ?case by (simp add: add_keywords_to_publication_def)
next
  case (Cons raw kws)
  have "add_keywords_to_publication pid (raw # kws) db =
        add_keywords_to_publication pid kws (add_keyword pid raw db)"
    by (simp add: add_keywords_to_publication_def)
  with Cons show ?case by (simp add: links_add_keyword)
qed

text \<open>
  C5 (amended). Within one call that attaches a list of keyword terms to a publication,
  the usage counter of a term grows by one for every entry of the list that trims to that
  term, whether or not the keyword is already linked to the publication: the increment
  stands before the not-already-attached guard. The guard only keeps the association
  itself single: a table of links without repetition stays so.
\<close>

theorem add_keywords_counts_every_entry:
  "usage_of (add_keywords_to_publication pid kws db) t =
     usage_of db t + int (count_list (filter (\<lambda>s. s \<noteq> []) (map strip kws)) t) \<and>
   (distinct (db_publication_keywords db) \<longrightarrow>
      distinct (db_publication_keywords (add_keywords_to_publication pid kws db)))"
  by (simp add: usage_of_add_keywords links_add_keywords)

theorem add_keywords_counts_every_entry_witness:
  "distinct (db_publication_keywords empty_database) \<and>
   distinct (db_publication_keywords
     (add_keywords_to_publication 7 ['' plant'', ''crop'', ''plant'', '' ''] empty_database)) \<and>
   usage_of (add_keywords_to_publication 7 ['' plant'', ''crop'', ''plant'', '' ''] empty_database)
     ''plant'' = 2"
proof -
  have d: "distinct (db_publication_keywords empty_database)"
    by (simp add: empty_database_def)
  have u: "usage_of empty_database ''plant'' = 0"
    by (simp add: empty_database_def usage_of_def)
  have c: "count_list (filter (\<lambda>s. s \<noteq> []) (map strip ['' plant'', ''crop'', ''plant'', '' '']))
             ''plant'' = 2"
    by code_simp
  from add_keywords_counts_every_entry
         [of 7 "['' plant'', ''crop'', ''plant'', '' '']" empty_database "''plant''"] d u c
  show ?thesis by simp
qed

text \<open>
  The term "bone" occurs twice in one call for publication 1 (the second time with a
  trailing blank): one link is stored, and the counter of the keyword stands at 2.
\<close>

theorem add_keywords_double_count_counterexample:
  "db_publication_keywords
     (add_keywords_to_publication 1 [''bone'', ''bone ''] empty_database) = [(1, 1)] \<and>
   map usage_count
     (db_keywords (add_keywords_to_publication 1 [''bone'', ''bone ''] empty_database)) = [2] \<and>
   usage_of (add_keywords_to_publication 1 [''bone'', ''bone ''] empty_database) ''bone'' = 2"
  by code_simp

subsection \<open>Idempotent ingestion\<close>

lemma find_snoc:
  "find P (xs @ [x]) = (case find P xs of Some y \<Rightarrow> Some y | None \<Rightarrow> if P x then Some x else None)"
  by (induction xs) auto

lemma add_author_frame:
  "db_publications (add_author pid name db) = db_publications db \<and>
   inactive (add_author pid name db) = inactive db"
  by (simp add: add_author_def Let_def split: option.splits)

lemma add_authors_frame:
  "db_publications (add_authors_to_publication pid names db) = db_publications db \<and>
   inactive (add_authors_to_publication pid names db) = inactive db"
proof (induction names arbitrary: db)
  case Nil
  then show ?case by (simp add: add_authors_to_publication_def)
next
  case (Cons name names)
  have "add_authors_to_publication pid (name # names) db =
        add_authors_to_publication pid names (add_author pid name db)"
    by (simp add: add_authors_to_publication_def)
  then show ?case by (simp add: Cons.IH add_author_frame)
qed

lemma add_keyword_frame:
  "db_publications (add_keyword pid raw db) = db_publications db \<and>
   inactive (add_keyword pid raw db) = inactive db"
  by (simp add: add_keyword_def Let_def split: option.splits)

lemma add_keywords_frame:
  "db_publications (add_keywords_to_publication pid kws db) = db_publications db \<and>
   inactive (add_keywords_to_publication pid kws db) = inactive db"
proof (induction kws arbitrary: db)
  case Nil
  then show ?case by (simp add: add_keywords_to_publication_def)
next
  case (Cons raw kws)
  have "add_keywords_to_publication pid (raw # kws) db =
        add_keywords_to_publication pid kws (add_keyword pid raw db)"
    by (simp add: add_keywords_to_publication_def)
  then show ?case by (simp add: Cons.IH add_keyword_frame)
qed

lemma create_search_index_frame:
  "db_publications (create_search_index p db) = db_publications db \<and>
   inactive (create_search_index p db) = inactive db"
  by (simp add: create_search_index_def)

text \<open>What a call that returns a publication has done.\<close>

lemma create_publication_Inr:
  assumes "create_publication pub_data db = (Inr p, db')"
  shows "\<not> inactive db'"
    and "(find (\<lambda>q. pub_nasa_id q = pd_nasa_id pub_data) (db_publications db) = Some p \<and> db' = db) \<or>
         (find (\<lambda>q. pub_nasa_id q = pd_nasa_id pub_data) (db_publications db) = None \<and>
          db_publications db' = db_publications db @ [p] \<and> pub_nasa_id p = pd_nasa_id pub_data)"
proof -
  from assms have a: "\<not> inactive db"
    by (auto simp: create_publication_def split: if_splits)
  show "\<not> inactive db'"
    using assms a
    by (auto simp: create_publication_def Let_def add_authors_frame add_keywords_frame
          create_search_index_frame split: option.splits if_splits)
  show "(find (\<lambda>q. pub_nasa_id q = pd_nasa_id pub_data) (db_publications db) = Some p \<and> db' = db) \<or>
         (find (\<lambda>q. pub_nasa_id q = pd_nasa_id pub_data) (db_publications db) = None \<and>
          db_publications db' = db_publications db @ [p] \<and> pub_nasa_id p = pd_nasa_id pub_data)"
    using assms a
    by (auto simp: create_publication_def Let_def add_authors_frame add_keywords_frame
          create_search_index_frame split: option.splits if_splits)
qed

text \<open>
  C1. Ingestion is idempotent in the source identifier: when \<open>create_publication\<close> has
  returned a record for some \<open>pub_data\<close>, a second call with the same \<open>nasa_id\<close>,
  whatever its other fields, returns that same record and leaves the database as it is:
  no field is merged, and no publication, author, keyword, link or counter changes.
\<close>

theorem create_publication_idempotent:
  "create_publication pub_data db = (Inr p, db') \<Longrightarrow>
   pd_nasa_id pub_data' = pd_nasa_id pub_data \<Longrightarrow>
   create_publication pub_data' db' = (Inr p, db')"
proof -
  assume c: "create_publication pub_data db = (Inr p, db')"
    and n: "pd_nasa_id pub_data' = pd_nasa_id pub_data"
  from create_publication_Inr [OF c] have a: "\<not> inactive db'"
    and f: "(find (\<lambda>q. pub_nasa_id q = pd_nasa_id pub_data) (db_publications db) = Some p \<and> db' = db) \<or>
         (find (\<lambda>q. pub_nasa_id q = pd_nasa_id pub_data) (db_publications db) = None \<and>
          db_publications db' = db_publications db @ [p] \<and> pub_nasa_id p = pd_nasa_id pub_data)"
    by blast+
  from f have "find (\<lambda>q. pub_nasa_id q = pd_nasa_id pub_data) (db_publications db') = Some p"
    by (auto simp: find_snoc)
  with a n show ?thesis by (simp add: create_publication_def)
qed

theorem create_publication_idempotent_witness:
  "\<exists>p db'. create_publication sample_1 empty_database = (Inr p, db') \<and>
     pd_nasa_id (sample_1\<lparr>pd_title := Some ''Another title'', pd_keywords := [''bone'']\<rparr>) =
       pd_nasa_id sample_1 \<and>
     create_publication (sample_1\<lparr>pd_title := Some ''Another title'', pd_keywords := [''bone'']\<rparr>) db'
       = (Inr p, db')"
proof -
  obtain r db' where r: "create_publication sample_1 empty_database = (r, db')"
    by (cases "create_publication sample_1 empty_database")
  have "\<exists>p. r = Inr p"
    using r
    by (auto simp: create_publication_def empty_database_def sample_1_def Let_def
          bindable_def in_int64_def)
  then obtain p where p: "create_publication sample_1 empty_database = (Inr p, db')"
    using r by blast
  have n: "pd_nasa_id (sample_1\<lparr>pd_title := Some ''Another title'', pd_keywords := [''bone'']\<rparr>) =
       pd_nasa_id sample_1" by simp
  from create_publication_idempotent [OF p n] p n show ?thesis by blast
qed

subsection \<open>Search\<close>











lemma mset_insert_year_desc: "mset (insert_year_desc p qs) = add_mset p (mset qs)"
  by (induction qs) auto

lemma mset_order_by_year_desc: "mset (order_by_year_desc ps) = mset ps"
  by (induction ps) (auto simp: order_by_year_desc_def mset_insert_year_desc)

lemma year_le_total: "year_le a b \<or> year_le b a"
  by (auto simp: year_le_def split: option.splits)

lemma year_le_trans: "year_le a b \<Longrightarrow> year_le b c \<Longrightarrow> year_le a c"
  by (auto simp: year_le_def split: option.splits)

lemma set_insert_year_desc: "set (insert_year_desc p qs) = insert p (set qs)"
  by (induction qs) auto

lemma sorted_insert_year_desc:
  "sorted_wrt (\<lambda>a b. year_le (pub_publication_year b) (pub_publication_year a)) qs \<Longrightarrow>
   sorted_wrt (\<lambda>a b. year_le (pub_publication_year b) (pub_publication_year a))
     (insert_year_desc p qs)"
proof (induction qs)
  case Nil
  then show ?case by simp
next
  case (Cons q qs)
  show ?case
  proof (cases "year_le (pub_publication_year q) (pub_publication_year p)")
    case True
    with Cons.prems show ?thesis by (auto intro: year_le_trans)
  next
    case False
    then have "year_le (pub_publication_year p) (pub_publication_year q)"
      using year_le_total by blast
    with False Cons show ?thesis by (auto simp: set_insert_year_desc)
  qed
qed

lemma sorted_order_by_year_desc:
  "sorted_wrt (\<lambda>a b. year_le (pub_publication_year b) (pub_publication_year a))
     (order_by_year_desc ps)"
  by (induction ps) (auto simp: order_by_year_desc_def sorted_insert_year_desc)


lemma year_desc_order_table: "year_desc_order order_by_year_desc rows"
  by (simp add: year_desc_order_def mset_order_by_year_desc sorted_order_by_year_desc)





subsection \<open>Ingestion\<close>

lemma classify_enriched:
  "classify_organism_type (d\<lparr>pd_organism_type := x\<rparr>) = classify_organism_type d"
  "classify_research_domain (d\<lparr>pd_organism_type := x\<rparr>) = classify_research_domain d"
  "classify_organism_type (d\<lparr>pd_research_domain := y\<rparr>) = classify_organism_type d"
  "classify_research_domain (d\<lparr>pd_research_domain := y\<rparr>) = classify_research_domain d"
  by (simp_all add: classify_organism_type_def classify_research_domain_def classify_text_def)

lemma stored_from_enriched:
  "stored_from (d\<lparr>pd_organism_type := x\<rparr>\<lparr>pd_research_domain := y\<rparr>) p = stored_from d p"
  by (simp add: stored_from_def classify_enriched)

lemma add_authors_sources:
  "db_data_sources (add_authors_to_publication pid names db) = db_data_sources db"
proof (induction names arbitrary: db)
  case Nil
  then show ?case by (simp add: add_authors_to_publication_def)
next
  case (Cons name names)
  have "add_authors_to_publication pid (name # names) db =
        add_authors_to_publication pid names (add_author pid name db)"
    by (simp add: add_authors_to_publication_def)
  moreover have "db_data_sources (add_author pid name db) = db_data_sources db"
    by (simp add: add_author_def Let_def split: option.splits)
  ultimately show ?case by (simp add: Cons.IH)
qed

lemma add_keywords_sources:
  "db_data_sources (add_keywords_to_publication pid kws db) = db_data_sources db"
proof (induction kws arbitrary: db)
  case Nil
  then show ?case by (simp add: add_keywords_to_publication_def)
next
  case (Cons raw kws)
  have "add_keywords_to_publication pid (raw # kws) db =
        add_keywords_to_publication pid kws (add_keyword pid raw db)"
    by (simp add: add_keywords_to_publication_def)
  moreover have "db_data_sources (add_keyword pid raw db) = db_data_sources db"
    by (simp add: add_keyword_def Let_def split: option.splits)
  ultimately show ?case by (simp add: Cons.IH)
qed

lemma create_publication_sources:
  "db_data_sources (snd (create_publication d db)) = db_data_sources db"
  by (simp add: create_publication_def Let_def add_authors_sources add_keywords_sources
        create_search_index_def split: option.splits)

lemma create_publication_Inl:
  "create_publication d db = (Inl e, db') \<Longrightarrow>
   inactive db' \<and> db_publications db' = db_publications db"
  by (auto simp: create_publication_def Let_def split: if_splits option.splits)

lemma create_publication_new_row:
  assumes "create_publication d db = (Inr p, db')"
  shows "\<not> inactive db"
    and "db_publications db' = db_publications db \<or>
         (db_publications db' = db_publications db @ [p] \<and> stored_from d p)"
proof -
  show "\<not> inactive db"
    using assms by (auto simp: create_publication_def split: if_splits)
  show "db_publications db' = db_publications db \<or>
         (db_publications db' = db_publications db @ [p] \<and> stored_from d p)"
    using assms
    by (auto simp: create_publication_def Let_def add_authors_frame add_keywords_frame
          create_search_index_frame stored_from_def split: option.splits if_splits)
qed

lemma create_publication_has_id:
  assumes "create_publication d db = (Inr p, db')"
  shows "\<exists>q \<in> set (db_publications db'). pub_nasa_id q = pd_nasa_id d"
proof -
  from create_publication_Inr(2) [OF assms]
  consider "find (\<lambda>q. pub_nasa_id q = pd_nasa_id d) (db_publications db) = Some p \<and> db' = db"
    | "db_publications db' = db_publications db @ [p] \<and> pub_nasa_id p = pd_nasa_id d"
    by blast
  then show ?thesis
  proof cases
    case 1
    then obtain i where i: "i < length (db_publications db)"
      "pub_nasa_id (db_publications db ! i) = pd_nasa_id d"
      by (auto simp: find_Some_iff)
    then have "db_publications db ! i \<in> set (db_publications db)" by simp
    with i 1 show ?thesis by blast
  next
    case 2
    then show ?thesis by auto
  qed
qed

lemma store_publication_cases:
  assumes "store_publication d (n, errs, db) = (n', errs', db')"
  shows "db_data_sources db' = db_data_sources db"
    and "(errs' = errs \<and> n' = n + 1 \<and> \<not> inactive db \<and> \<not> inactive db' \<and>
          (\<exists>q \<in> set (db_publications db'). pub_nasa_id q = pd_nasa_id d) \<and>
          (\<exists>new. db_publications db' = db_publications db @ new \<and>
                 (\<forall>p \<in> set new. stored_from d p))) \<or>
         (\<exists>e. errs' = errs @ [ErrorProcessing (pd_title d) e] \<and> n' = n \<and> inactive db' \<and>
              db_publications db' = db_publications db)"
proof -
  let ?d1 = "d\<lparr>pd_organism_type := Some (classify_organism_type d)\<rparr>"
  let ?d2 = "?d1\<lparr>pd_research_domain := Some (classify_research_domain ?d1)\<rparr>"
  obtain r db2 where c: "create_publication ?d2 db = (r, db2)"
    by (cases "create_publication ?d2 db")
  from assms c have db': "db' = db2"
    by (cases r) (auto simp: store_publication_def Let_def)
  from create_publication_sources [of ?d2 db] c db'
  show "db_data_sources db' = db_data_sources db" by simp
  show "(errs' = errs \<and> n' = n + 1 \<and> \<not> inactive db \<and> \<not> inactive db' \<and>
          (\<exists>q \<in> set (db_publications db'). pub_nasa_id q = pd_nasa_id d) \<and>
          (\<exists>new. db_publications db' = db_publications db @ new \<and>
                 (\<forall>p \<in> set new. stored_from d p))) \<or>
         (\<exists>e. errs' = errs @ [ErrorProcessing (pd_title d) e] \<and> n' = n \<and> inactive db' \<and>
              db_publications db' = db_publications db)"
  proof (cases r)
    case (Inl e)
    with c have "inactive db2 \<and> db_publications db2 = db_publications db"
      using create_publication_Inl by blast
    moreover from assms c Inl have "errs' = errs @ [ErrorProcessing (pd_title d) e] \<and> n' = n"
      by (auto simp: store_publication_def Let_def)
    ultimately show ?thesis using db' by blast
  next
    case (Inr p)
    with c have cp: "create_publication ?d2 db = (Inr p, db2)" by simp
    from assms c Inr have e: "errs' = errs \<and> n' = n + 1"
      by (auto simp: store_publication_def Let_def)
    from create_publication_Inr(1) [OF cp] have a2: "\<not> inactive db2" .
    from create_publication_new_row(1) [OF cp] have a1: "\<not> inactive db" .
    from create_publication_has_id [OF cp]
    have h: "\<exists>q \<in> set (db_publications db2). pub_nasa_id q = pd_nasa_id d" by simp
    from create_publication_new_row(2) [OF cp]
    have "db_publications db2 = db_publications db \<or>
         (db_publications db2 = db_publications db @ [p] \<and> stored_from d p)"
      by (simp add: stored_from_enriched)
    then have "\<exists>new. db_publications db2 = db_publications db @ new \<and>
                 (\<forall>p \<in> set new. stored_from d p)"
    proof
      assume "db_publications db2 = db_publications db"
      then have "db_publications db2 = db_publications db @ [] \<and>
                 (\<forall>p \<in> set []. stored_from d p)" by simp
      then show ?thesis by blast
    next
      assume "db_publications db2 = db_publications db @ [p] \<and> stored_from d p"
      then have "db_publications db2 = db_publications db @ [p] \<and>
                 (\<forall>q \<in> set [p]. stored_from d q)" by simp
      then show ?thesis by blast
    qed
    with e a1 a2 h db' show ?thesis by blast
  qed
qed

lemma store_loop_full:
  "foldl (\<lambda>st pub_data. store_publication pub_data st) (n, errs, db) pubs = (n', errs', db') \<Longrightarrow>
   \<exists>new_errs new_pubs.
      errs' = errs @ new_errs \<and> n' + length new_errs = n + length pubs \<and>
      (\<forall>x \<in> set new_errs. \<exists>d \<in> set pubs. \<exists>e. x = ErrorProcessing (pd_title d) e) \<and>
      db_publications db' = db_publications db @ new_pubs \<and>
      (\<forall>p \<in> set new_pubs. \<exists>d \<in> set pubs. stored_from d p) \<and>
      db_data_sources db' = db_data_sources db \<and>
      (new_errs \<noteq> [] \<longrightarrow> inactive db') \<and>
      (new_errs = [] \<longrightarrow> inactive db' = inactive db) \<and>
      (new_errs = [] \<longrightarrow>
         (\<forall>d \<in> set pubs. \<exists>q \<in> set (db_publications db'). pub_nasa_id q = pd_nasa_id d))"
proof (induction pubs arbitrary: n errs db)
  case Nil
  then show ?case by simp
next
  case (Cons d pubs)
  obtain n1 errs1 db1 where s: "store_publication d (n, errs, db) = (n1, errs1, db1)"
    by (cases "store_publication d (n, errs, db)") auto
  with Cons.prems
  have "foldl (\<lambda>st pub_data. store_publication pub_data st) (n1, errs1, db1) pubs = (n', errs', db')"
    by simp
  from Cons.IH [OF this] obtain ne np where ih:
    "errs' = errs1 @ ne" "n' + length ne = n1 + length pubs"
    "\<forall>x \<in> set ne. \<exists>d \<in> set pubs. \<exists>e. x = ErrorProcessing (pd_title d) e"
    "db_publications db' = db_publications db1 @ np"
    "\<forall>p \<in> set np. \<exists>d \<in> set pubs. stored_from d p"
    "db_data_sources db' = db_data_sources db1"
    "ne \<noteq> [] \<longrightarrow> inactive db'"
    "ne = [] \<longrightarrow> inactive db' = inactive db1"
    "ne = [] \<longrightarrow> (\<forall>d \<in> set pubs. \<exists>q \<in> set (db_publications db'). pub_nasa_id q = pd_nasa_id d)"
    by blast
  note src = store_publication_cases(1) [OF s]
  from store_publication_cases(2) [OF s]
  consider (ok) new where "errs1 = errs" "n1 = n + 1" "\<not> inactive db" "\<not> inactive db1"
      "\<exists>q \<in> set (db_publications db1). pub_nasa_id q = pd_nasa_id d"
      "db_publications db1 = db_publications db @ new" "\<forall>p \<in> set new. stored_from d p"
    | (failed) e where "errs1 = errs @ [ErrorProcessing (pd_title d) e]" "n1 = n" "inactive db1"
      "db_publications db1 = db_publications db"
    by blast
  then show ?case
  proof cases
    case ok
    have 1: "errs' = errs @ ne" using ih(1) ok(1) by simp
    have 2: "n' + length ne = n + length (d # pubs)" using ih(2) ok(2) by simp
    have 3: "\<forall>x \<in> set ne. \<exists>d' \<in> set (d # pubs). \<exists>e. x = ErrorProcessing (pd_title d') e"
      using ih(3) by auto
    have 4: "db_publications db' = db_publications db @ (new @ np)" using ih(4) ok(6) by simp
    have 5: "\<forall>p \<in> set (new @ np). \<exists>d' \<in> set (d # pubs). stored_from d' p"
      using ih(5) ok(7) by auto
    have 6: "db_data_sources db' = db_data_sources db" using ih(6) src by simp
    have 8: "ne = [] \<longrightarrow> inactive db' = inactive db" using ih(8) ok(3,4) by simp
    have 9: "ne = [] \<longrightarrow>
         (\<forall>d' \<in> set (d # pubs). \<exists>q \<in> set (db_publications db'). pub_nasa_id q = pd_nasa_id d')"
    proof
      assume ne: "ne = []"
      from ok(5) ih(4) have "\<exists>q \<in> set (db_publications db'). pub_nasa_id q = pd_nasa_id d"
        by auto
      with ih(9) ne show "\<forall>d' \<in> set (d # pubs). \<exists>q \<in> set (db_publications db'). pub_nasa_id q = pd_nasa_id d'"
        by simp
    qed
    from 1 2 3 4 5 6 ih(7) 8 9 show ?thesis by blast
  next
    case failed
    let ?ne = "ErrorProcessing (pd_title d) e # ne"
    have 1: "errs' = errs @ ?ne" using ih(1) failed(1) by simp
    have 2: "n' + length ?ne = n + length (d # pubs)" using ih(2) failed(2) by simp
    have 3: "\<forall>x \<in> set ?ne. \<exists>d' \<in> set (d # pubs). \<exists>e. x = ErrorProcessing (pd_title d') e"
      using ih(3) by auto
    have 4: "db_publications db' = db_publications db @ np" using ih(4) failed(4) by simp
    have 5: "\<forall>p \<in> set np. \<exists>d' \<in> set (d # pubs). stored_from d' p"
      using ih(5) by auto
    have 6: "db_data_sources db' = db_data_sources db" using ih(6) src by simp
    have 7: "?ne \<noteq> [] \<longrightarrow> inactive db'" using ih(7) ih(8) failed(3) by (cases "ne = []") auto
    have 8: "?ne = [] \<longrightarrow> inactive db' = inactive db" by simp
    have 9: "?ne = [] \<longrightarrow>
         (\<forall>d' \<in> set (d # pubs). \<exists>q \<in> set (db_publications db'). pub_nasa_id q = pd_nasa_id d')"
      by simp
    from 1 2 3 4 5 6 7 8 9 show ?thesis by blast
  qed
qed

lemma total_sum_update:
  "i < length xs \<Longrightarrow>
   sum_list (map total_records (filter (\<lambda>d. ds_name d = s)
     (xs[i := (xs ! i)\<lparr>total_records := total_records (xs ! i) + k\<rparr>]))) =
   sum_list (map total_records (filter (\<lambda>d. ds_name d = s) xs)) +
     (if ds_name (xs ! i) = s then k else 0)"
proof (induction xs arbitrary: i)
  case Nil
  then show ?case by simp
next
  case (Cons x xs)
  show ?case
  proof (cases i)
    case 0
    then show ?thesis by simp
  next
    case (Suc j)
    with Cons.prems have "j < length xs" by simp
    from Cons.IH [OF this] Suc show ?thesis by simp
  qed
qed

lemma update_data_source_inactive:
  "inactive db \<Longrightarrow> update_data_source source_name n db = Inl PendingRollbackError"
  by (simp add: update_data_source_def)

lemma update_data_source_result:
  assumes "\<not> inactive db"
  shows "\<exists>db2. update_data_source source_name n db = Inr db2 \<and>
               db_publications db2 = db_publications db \<and> inactive db2 = inactive db \<and>
               source_total db2 source_name = source_total db source_name + int n"
proof (cases "first_index (\<lambda>d. ds_name d = source_name) (db_data_sources db)")
  case None
  with assms show ?thesis
    by (simp add: update_data_source_def Let_def source_total_def)
next
  case (Some i)
  then have i: "i < length (db_data_sources db)" "ds_name (db_data_sources db ! i) = source_name"
    using first_index_Some [OF Some] by simp_all
  from assms Some show ?thesis
    by (simp add: update_data_source_def Let_def source_total_def total_sum_update [OF i(1)] i(2))
qed

lemma store_all_full:
  assumes sa: "store_all source_name pubs db = (r, db')"
  shows "ir_source r = source_name"
    and "\<exists>perrs ferrs new_pubs.
           ir_errors r = perrs @ ferrs \<and>
           (\<forall>x \<in> set perrs. \<exists>d \<in> set pubs. \<exists>e. x = ErrorProcessing (pd_title d) e) \<and>
           (ferrs = [] \<or> ferrs = [ErrorFetching source_name PendingRollbackError]) \<and>
           ir_ingested r + length perrs = length pubs \<and>
           db_publications db' = db_publications db @ new_pubs \<and>
           (\<forall>p \<in> set new_pubs. \<exists>d \<in> set pubs. stored_from d p)"
    and "\<not> inactive db \<and> (\<forall>t e. ErrorProcessing t e \<notin> set (ir_errors r)) \<longrightarrow>
           ir_errors r = [] \<and> ir_ingested r = length pubs \<and> \<not> inactive db' \<and>
           (\<forall>d \<in> set pubs. \<exists>q \<in> set (db_publications db'). pub_nasa_id q = pd_nasa_id d) \<and>
           source_total db' source_name = source_total db source_name + int (length pubs)"
proof -
  obtain n errs db1 where
    l: "foldl (\<lambda>st pub_data. store_publication pub_data st) (0, [], db) pubs = (n, errs, db1)"
    by (cases "foldl (\<lambda>st pub_data. store_publication pub_data st) (0, [], db) pubs") auto
  from store_loop_full [OF l] obtain np where inv:
    "n + length errs = length pubs"
    "\<forall>x \<in> set errs. \<exists>d \<in> set pubs. \<exists>e. x = ErrorProcessing (pd_title d) e"
    "db_publications db1 = db_publications db @ np"
    "\<forall>p \<in> set np. \<exists>d \<in> set pubs. stored_from d p"
    "db_data_sources db1 = db_data_sources db"
    "errs \<noteq> [] \<longrightarrow> inactive db1"
    "errs = [] \<longrightarrow> inactive db1 = inactive db"
    "errs = [] \<longrightarrow> (\<forall>d \<in> set pubs. \<exists>q \<in> set (db_publications db1). pub_nasa_id q = pd_nasa_id d)"
    by auto
  have st: "source_total db1 source_name = source_total db source_name"
    using inv(5) by (simp add: source_total_def)
  consider (dead) "inactive db1" | (live) "\<not> inactive db1" by blast
  then have main: "ir_source r = source_name \<and>
     (\<exists>ferrs. ir_errors r = errs @ ferrs \<and>
        (ferrs = [] \<or> ferrs = [ErrorFetching source_name PendingRollbackError]) \<and>
        (inactive db1 \<longrightarrow> ferrs \<noteq> [])) \<and>
     ir_ingested r = n \<and> db_publications db' = db_publications db1 \<and>
     (\<not> inactive db1 \<longrightarrow> \<not> inactive db' \<and>
        source_total db' source_name = source_total db1 source_name + int n)"
  proof cases
    case dead
    then have "update_data_source source_name n db1 = Inl PendingRollbackError"
      by (rule update_data_source_inactive)
    with sa l dead show ?thesis by (auto simp: store_all_def)
  next
    case live
    from update_data_source_result [OF live, of source_name n] obtain db2 where
      u: "update_data_source source_name n db1 = Inr db2"
        "db_publications db2 = db_publications db1" "inactive db2 = inactive db1"
        "source_total db2 source_name = source_total db1 source_name + int n"
      by blast
    with sa l live show ?thesis by (auto simp: store_all_def)
  qed
  then obtain ferrs where fe: "ir_errors r = errs @ ferrs"
    "ferrs = [] \<or> ferrs = [ErrorFetching source_name PendingRollbackError]"
    "inactive db1 \<longrightarrow> ferrs \<noteq> []"
    by blast
  show "ir_source r = source_name" using main by blast
  have "ir_errors r = errs @ ferrs \<and>
           (\<forall>x \<in> set errs. \<exists>d \<in> set pubs. \<exists>e. x = ErrorProcessing (pd_title d) e) \<and>
           (ferrs = [] \<or> ferrs = [ErrorFetching source_name PendingRollbackError]) \<and>
           ir_ingested r + length errs = length pubs \<and>
           db_publications db' = db_publications db @ np \<and>
           (\<forall>p \<in> set np. \<exists>d \<in> set pubs. stored_from d p)"
    using fe inv main by simp
  then show "\<exists>perrs ferrs new_pubs.
           ir_errors r = perrs @ ferrs \<and>
           (\<forall>x \<in> set perrs. \<exists>d \<in> set pubs. \<exists>e. x = ErrorProcessing (pd_title d) e) \<and>
           (ferrs = [] \<or> ferrs = [ErrorFetching source_name PendingRollbackError]) \<and>
           ir_ingested r + length perrs = length pubs \<and>
           db_publications db' = db_publications db @ new_pubs \<and>
           (\<forall>p \<in> set new_pubs. \<exists>d \<in> set pubs. stored_from d p)"
    by blast
  show "\<not> inactive db \<and> (\<forall>t e. ErrorProcessing t e \<notin> set (ir_errors r)) \<longrightarrow>
           ir_errors r = [] \<and> ir_ingested r = length pubs \<and> \<not> inactive db' \<and>
           (\<forall>d \<in> set pubs. \<exists>q \<in> set (db_publications db'). pub_nasa_id q = pd_nasa_id d) \<and>
           source_total db' source_name = source_total db source_name + int (length pubs)"
  proof
    assume h: "\<not> inactive db \<and> (\<forall>t e. ErrorProcessing t e \<notin> set (ir_errors r))"
    have e0: "errs = []"
    proof (rule ccontr)
      assume "errs \<noteq> []"
      then obtain x where x: "x \<in> set errs" by (cases errs) auto
      with inv(2) obtain t e where "x = ErrorProcessing t e" by blast
      with x fe(1) h show False by auto
    qed
    with inv(7) h have live: "\<not> inactive db1" by simp
    with fe(3) fe(2) have "ferrs = [] \<or> ferrs = [ErrorFetching source_name PendingRollbackError]"
      by blast
    have f0: "ferrs = []"
    proof (rule ccontr)
      assume "ferrs \<noteq> []"
      with fe(2) have ff: "ferrs = [ErrorFetching source_name PendingRollbackError]" by blast
      from live update_data_source_result [OF live, of source_name n] sa l
      have "ir_errors r = errs" by (auto simp: store_all_def)
      with fe(1) ff show False by simp
    qed
    from e0 inv(1) have n: "n = length pubs" by simp
    from main live have "\<not> inactive db'"
      "source_total db' source_name = source_total db1 source_name + int n"
      "db_publications db' = db_publications db1" "ir_ingested r = n"
      by simp_all
    with e0 f0 fe(1) n st inv(8)
    show "ir_errors r = [] \<and> ir_ingested r = length pubs \<and> \<not> inactive db' \<and>
           (\<forall>d \<in> set pubs. \<exists>q \<in> set (db_publications db'). pub_nasa_id q = pd_nasa_id d) \<and>
           source_total db' source_name = source_total db source_name + int (length pubs)"
      by simp
  qed
qed

text \<open>
  C9. A source name whose lower-case form is none of "ntrs", "open_data", "pubspace" is
  not rejected: the technical reports and PubSpace are searched with \<open>limit // 3\<close> each,
  the open-data source is searched as well, and the combined results (in that order)
  are ingested. Every record fetched is either counted as ingested or reported with
  its title as an error of processing; the only other error possible is the one of the
  final update of the data source, on a session that a failure has left unusable; the
  publications table grows only by rows written from fetched records. On a usable
  session and without an error of processing, there is no error at all, every record
  fetched is counted, each has a publication under its identifier in the database, and
  the data source of the given name is credited with all of them.
\<close>

theorem ingest_unknown_source_tries_all:
  "lower source_name \<notin> {''ntrs'', ''open_data'', ''pubspace''} \<Longrightarrow>
   pubs = search_nasa_techreports fetcher (limit div 3) @ search_nasa_open_data fetcher @
          search_pubspace fetcher (limit div 3) \<Longrightarrow>
   ingest_nasa_data fetcher source_name limit db = (r, db') \<Longrightarrow>
   store_all source_name pubs db = (r, db') \<and>
   ir_source r = source_name \<and>
   (\<exists>perrs ferrs new_pubs.
      ir_errors r = perrs @ ferrs \<and>
      (\<forall>x \<in> set perrs. \<exists>d \<in> set pubs. \<exists>e. x = ErrorProcessing (pd_title d) e) \<and>
      (ferrs = [] \<or> ferrs = [ErrorFetching source_name PendingRollbackError]) \<and>
      ir_ingested r + length perrs = length pubs \<and>
      db_publications db' = db_publications db @ new_pubs \<and>
      (\<forall>p \<in> set new_pubs. \<exists>d \<in> set pubs. stored_from d p)) \<and>
   (\<not> inactive db \<and> (\<forall>t e. ErrorProcessing t e \<notin> set (ir_errors r)) \<longrightarrow>
      ir_errors r = [] \<and> ir_ingested r = length pubs \<and> \<not> inactive db' \<and>
      (\<forall>d \<in> set pubs. \<exists>q \<in> set (db_publications db'). pub_nasa_id q = pd_nasa_id d) \<and>
      source_total db' source_name = source_total db source_name + int (length pubs))"
proof -
  assume u: "lower source_name \<notin> {''ntrs'', ''open_data'', ''pubspace''}"
    and p: "pubs = search_nasa_techreports fetcher (limit div 3) @ search_nasa_open_data fetcher @
          search_pubspace fetcher (limit div 3)"
    and i: "ingest_nasa_data fetcher source_name limit db = (r, db')"
  from u p i have sa: "store_all source_name pubs db = (r, db')"
    by (simp add: ingest_nasa_data_def)
  from sa store_all_full(1) [OF sa] store_all_full(2) [OF sa] store_all_full(3) [OF sa]
  show ?thesis by blast
qed

lemma create_publication_fresh:
  "\<not> inactive db \<Longrightarrow>
   find (\<lambda>p. pub_nasa_id p = pd_nasa_id pub_data) (db_publications db) = None \<Longrightarrow>
   bindable (pd_publication_year pub_data) \<Longrightarrow>
   pd_title pub_data = Some t \<Longrightarrow> pd_doi pub_data = None \<Longrightarrow>
   \<exists>p db'. create_publication pub_data db = (Inr p, db')"
  by (simp add: create_publication_def Let_def)

theorem ingest_unknown_source_tries_all_witness:
  "lower ''All'' \<notin> {''ntrs'', ''open_data'', ''pubspace''} \<and>
   \<not> inactive empty_database \<and>
   ir_errors (fst (ingest_nasa_data one_fetcher ''All'' 100 empty_database)) = [] \<and>
   ir_ingested (fst (ingest_nasa_data one_fetcher ''All'' 100 empty_database)) = 1 \<and>
   (\<exists>q. q \<in> set (db_publications (snd (ingest_nasa_data one_fetcher ''All'' 100 empty_database))) \<and>
        pub_nasa_id q = Some ''r-1'') \<and>
   source_total (snd (ingest_nasa_data one_fetcher ''All'' 100 empty_database)) ''All'' = 1"
proof -
  let ?d = "crop_report\<lparr>pd_organism_type := Some (classify_organism_type crop_report)\<rparr>"
  let ?d2 = "?d\<lparr>pd_research_domain := Some (classify_research_domain ?d)\<rparr>"
  let ?I = "ingest_nasa_data one_fetcher ''All'' 100 empty_database"
  have u: "lower ''All'' \<notin> {''ntrs'', ''open_data'', ''pubspace''}" by code_simp
  have a: "\<not> inactive empty_database" by (simp add: empty_database_def)
  have pubs: "[crop_report] = search_nasa_techreports one_fetcher (100 div 3) @
      search_nasa_open_data one_fetcher @ search_pubspace one_fetcher (100 div 3)"
    by (simp add: one_fetcher_def)
  obtain r db' where i: "?I = (r, db')" by (cases ?I)
  note t = ingest_unknown_source_tries_all [OF u pubs i]
  have "\<exists>p db1. create_publication ?d2 empty_database = (Inr p, db1)"
    by (rule create_publication_fresh [where t = "''Crop''"])
       (simp_all add: empty_database_def crop_report_def bindable_def in_int64_def)
  then obtain p db1 where c: "create_publication ?d2 empty_database = (Inr p, db1)" by blast
  then have s: "store_publication crop_report (0, [], empty_database) = (1, [], db1)"
    by (simp add: store_publication_def Let_def)
  from c have "\<not> inactive db1" using create_publication_Inr(1) by blast
  then obtain db2 where "update_data_source ''All'' 1 db1 = Inr db2"
    using update_data_source_result by blast
  with s have "ir_errors (fst (store_all ''All'' [crop_report] empty_database)) = []"
    by (simp add: store_all_def)
  with t have e: "ir_errors r = []" by simp
  then have n: "\<forall>t x. ErrorProcessing t x \<notin> set (ir_errors r)" by simp
  from t a n have g: "ir_ingested r = length [crop_report]" "\<not> inactive db'"
    "\<forall>d \<in> set [crop_report]. \<exists>q \<in> set (db_publications db'). pub_nasa_id q = pd_nasa_id d"
    "source_total db' ''All'' = source_total empty_database ''All'' + int (length [crop_report])"
    by blast+
  from g(3) have q: "\<exists>q. q \<in> set (db_publications db') \<and> pub_nasa_id q = Some ''r-1''"
    by (auto simp: crop_report_def)
  from g(4) have st: "source_total db' ''All'' = 1"
    by (simp add: source_total_def empty_database_def)
  from g(1) have ig: "ir_ingested r = 1" by simp
  from u a e ig q st i show ?thesis by simp
qed



end

